theory Spec2Isabelle
  imports
    Complex_Main
    "HOL-Library.AList"
    "HOL-Library.Char_ord"
    "HOL-Library.List_Lexorder"
    "HOL-Library.Multiset"
    "HOL-Library.Sublist"
begin

section \<open>Python values and errors\<close>

text \<open>
  Python strings are modelled as \<open>string\<close>, one \<open>char\<close> per code point, which covers
  the code points U+0000 to U+00FF (ASCII and Latin-1, enough for the Portuguese
  markers of the program).  Python floats are modelled as real numbers: rounding,
  infinities and NaN are not represented.  Python's unbounded integers are \<open>int\<close>.
\<close>

datatype error = RuntimeError | TypeError | ValueError

text \<open>The values a metadata dictionary holds (the scalar types of the vector store, and None).\<close>

datatype mval = MStr string | MInt int | MFloat real | MBool bool | MNone

text \<open>The numeric reading of a value: Python compares int, float and bool by value.\<close>

fun num_of :: "mval \<Rightarrow> real option" where
  "num_of (MInt i) = Some (real_of_int i)"
| "num_of (MFloat r) = Some r"
| "num_of (MBool b) = Some (if b then 1 else 0)"
| "num_of (MStr s) = None"
| "num_of MNone = None"

text \<open>\<^verbatim>\<open>a == b\<close>: never raises; values of unrelated types are unequal.\<close>

definition py_eq :: "mval \<Rightarrow> mval \<Rightarrow> bool" where
  "py_eq a b =
     (case (num_of a, num_of b) of
        (Some x, Some y) \<Rightarrow> x = y
      | (None, None) \<Rightarrow> a = b
      | _ \<Rightarrow> False)"

text \<open>
  \<^verbatim>\<open>a <= b\<close> and \<^verbatim>\<open>a >= b\<close>: numbers compare by value, strings lexicographically by
  code point, and every other pairing raises TypeError.
\<close>

fun py_le :: "mval \<Rightarrow> mval \<Rightarrow> error + bool" where
  "py_le (MStr s) (MStr t) = Inr (s \<le> t)"
| "py_le a b =
     (case (num_of a, num_of b) of
        (Some x, Some y) \<Rightarrow> Inr (x \<le> y)
      | _ \<Rightarrow> Inl TypeError)"

fun py_ge :: "mval \<Rightarrow> mval \<Rightarrow> error + bool" where
  "py_ge (MStr s) (MStr t) = Inr (t \<le> s)"
| "py_ge a b =
     (case (num_of a, num_of b) of
        (Some x, Some y) \<Rightarrow> Inr (y \<le> x)
      | _ \<Rightarrow> Inl TypeError)"

text \<open>
  A list comprehension \<^verbatim>\<open>[x for x in xs if p(x)]\<close> whose condition may raise: the
  elements are tested from left to right and the first exception ends the evaluation.
\<close>

fun comprehension :: "('a \<Rightarrow> error + bool) \<Rightarrow> 'a list \<Rightarrow> error + 'a list" where
  "comprehension p [] = Inr []"
| "comprehension p (x # xs) =
     (case p x of
        Inl e \<Rightarrow> Inl e
      | Inr b \<Rightarrow>
          (case comprehension p xs of
             Inl e \<Rightarrow> Inl e
           | Inr ys \<Rightarrow> Inr (if b then x # ys else ys)))"

text \<open>Sequencing of two steps that may raise.\<close>

definition and_then :: "error + 'a \<Rightarrow> ('a \<Rightarrow> error + 'b) \<Rightarrow> error + 'b" where
  "and_then r f = (case r of Inl e \<Rightarrow> Inl e | Inr x \<Rightarrow> f x)"

section \<open>Documents and the governance filters (retrieval\_service.py, DocumentFilter)\<close>

text \<open>
  A langchain \<open>Document\<close>: its text and its metadata dictionary, kept as an association
  list in insertion order and read with \<open>map_of\<close>.
\<close>

record document =
  page_content :: string
  metadata :: "(string \<times> mval) list"

text \<open>\<^verbatim>\<open>doc.metadata.get(key, default)\<close>\<close>

definition md_get :: "document \<Rightarrow> string \<Rightarrow> mval \<Rightarrow> mval" where
  "md_get doc key dflt = (case map_of (metadata doc) key of None \<Rightarrow> dflt | Some v \<Rightarrow> v)"

definition filter_by_status :: "document list \<Rightarrow> string \<Rightarrow> document list" where
  "filter_by_status documents status =
     filter (\<lambda>doc. py_eq (md_get doc ''status'' (MStr ''Vigente'')) (MStr status)) documents"

definition filter_by_precedence :: "document list \<Rightarrow> int option \<Rightarrow> error + document list" where
  "filter_by_precedence documents min_precedence =
     (case min_precedence of
        None \<Rightarrow> Inr documents
      | Some m \<Rightarrow>
          comprehension (\<lambda>doc. py_le (md_get doc ''precedencia'' (MInt 99)) (MInt m)) documents)"

text \<open>
  \<^verbatim>\<open>if start_date:\<close> is false for None and for the empty string, so both skip the
  bound; likewise \<^verbatim>\<open>if end_date:\<close>.
\<close>

definition filter_by_date_range ::
  "document list \<Rightarrow> string option \<Rightarrow> string option \<Rightarrow> error + document list" where
  "filter_by_date_range documents start_date end_date =
     and_then
       (case start_date of
          None \<Rightarrow> Inr documents
        | Some s \<Rightarrow>
            if s = [] then Inr documents
            else comprehension
                   (\<lambda>doc. py_ge (md_get doc ''vigencia_inicio'' (MStr '''')) (MStr s))
                   documents)
       (\<lambda>filtered.
          case end_date of
            None \<Rightarrow> Inr filtered
          | Some e \<Rightarrow>
              if e = [] then Inr filtered
              else comprehension
                     (\<lambda>doc. py_le (md_get doc ''vigencia_fim'' (MStr ''9999-12-31'')) (MStr e))
                     filtered)"

text \<open>\<^verbatim>\<open>if not source_types:\<close> holds for None and for the empty list.\<close>

definition filter_by_source_type :: "document list \<Rightarrow> string list option \<Rightarrow> document list" where
  "filter_by_source_type documents source_types =
     (case source_types of
        None \<Rightarrow> documents
      | Some [] \<Rightarrow> documents
      | Some ts \<Rightarrow>
          filter (\<lambda>doc. list_ex (\<lambda>t. py_eq (md_get doc ''tipo'' (MStr '''')) (MStr t)) ts)
                 documents)"

text \<open>
  The keyword arguments of \<open>apply_all_filters\<close>.  A field is \<open>None\<close> when the keyword
  is not passed (or, for the optional ones, passed as None); an absent \<open>status\<close> takes
  the default \<^verbatim>\<open>"Vigente"\<close>.
\<close>

record criteria =
  status :: "string option"
  min_precedence :: "int option"
  start_date :: "string option"
  end_date :: "string option"
  source_types :: "string list option"

definition status_of :: "criteria \<Rightarrow> string" where
  "status_of c = (case status c of None \<Rightarrow> ''Vigente'' | Some s \<Rightarrow> s)"

definition apply_all_filters :: "document list \<Rightarrow> criteria \<Rightarrow> error + document list" where
  "apply_all_filters documents c =
     and_then (Inr (filter_by_status documents (status_of c))) (\<lambda>f1.
     and_then (filter_by_precedence f1 (min_precedence c)) (\<lambda>f2.
     and_then (filter_by_date_range f2 (start_date c) (end_date c)) (\<lambda>f3.
     Inr (filter_by_source_type f3 (source_types c)))))"

section \<open>Python builtins used by the retriever\<close>

text \<open>
  \<^verbatim>\<open>xs[:k]\<close>: the first \<open>k\<close> elements for \<open>k \<ge> 0\<close>, all but the last \<open>-k\<close> for
  a negative \<open>k\<close>.
\<close>

definition slice_to :: "int \<Rightarrow> 'a list \<Rightarrow> 'a list" where
  "slice_to k xs = (if 0 \<le> k then take (nat k) xs else take (length xs - nat (- k)) xs)"

text \<open>\<^verbatim>\<open>str.isspace\<close> and \<^verbatim>\<open>str.lower\<close> on the code points below 256.\<close>

definition py_isspace :: "char \<Rightarrow> bool" where
  "py_isspace c =
     (let n = (of_char c :: nat)
      in (9 \<le> n \<and> n \<le> 13) \<or> (28 \<le> n \<and> n \<le> 32) \<or> n = 133 \<or> n = 160)"

definition lower_char :: "char \<Rightarrow> char" where
  "lower_char c =
     (let n = (of_char c :: nat)
      in if (65 \<le> n \<and> n \<le> 90) \<or> (192 \<le> n \<and> n \<le> 222 \<and> n \<noteq> 215)
         then char_of (n + 32) else c)"

definition py_lower :: "string \<Rightarrow> string" where
  "py_lower s = map lower_char s"

text \<open>\<^verbatim>\<open>s.split()\<close>: the maximal runs of non-whitespace characters.\<close>

fun split_acc :: "string \<Rightarrow> string \<Rightarrow> string list" where
  "split_acc w [] = (if w = [] then [] else [w])"
| "split_acc w (c # cs) =
     (if py_isspace c
      then (if w = [] then split_acc [] cs else w # split_acc [] cs)
      else split_acc (w @ [c]) cs)"

definition py_split :: "string \<Rightarrow> string list" where
  "py_split s = split_acc [] s"

text \<open>\<^verbatim>\<open>str(i)\<close> for an integer: decimal digits, with a minus sign when negative.\<close>

fun str_nat :: "nat \<Rightarrow> string" where
  "str_nat n =
     (if n < 10 then [char_of (48 + n)]
      else str_nat (n div 10) @ [char_of (48 + n mod 10)])"

declare str_nat.simps [simp del]

definition str_int :: "int \<Rightarrow> string" where
  "str_int i = (if i < 0 then CHR ''-'' # str_nat (nat (- i)) else str_nat (nat i))"

text \<open>
  \<^verbatim>\<open>numpy.argsort\<close>: the indices in ascending order of score.  The order among equal
  scores depends on numpy's sorting algorithm; the model takes the stable order.
\<close>

definition argsort :: "real list \<Rightarrow> nat list" where
  "argsort xs = sort_key (\<lambda>i. xs ! i) [0..<length xs]"

section \<open>The hybrid retriever (retrieval\_service.py, HybridRetriever)\<close>

datatype RetrievalStrategy = VECTOR_ONLY | BM25_ONLY | HYBRID | HYBRID_RERANK

text \<open>The fields of \<open>config.retrieval\<close> that the retriever reads.\<close>

record retrieval_config =
  default_k :: int
  vector_weight :: real
  bm25_weight :: real

text \<open>
  The retriever object.  Its collaborators are library objects and enter as functions:
  \<^item> \<open>vectorstore\<close> is \<^verbatim>\<open>Chroma.similarity_search_with_score(query, k, filter)\<close>;
  \<^item> \<open>bm25\<close> is \<^verbatim>\<open>BM25Okapi.get_scores\<close>, giving for the query tokens the score of the
    corpus document at each index (\<open>None\<close> until \<open>initialize_bm25\<close> has run);
  \<^item> \<open>reranker\<close> is \<^verbatim>\<open>CrossEncoder.predict\<close> on one (query, text) pair (\<open>None\<close>
    when reranking is disabled);
  \<^item> \<open>float_str\<close> is Python's \<^verbatim>\<open>str\<close> of a float, which an f-string applies to a
    float-valued metadata entry.
\<close>

record retriever =
  config :: retrieval_config
  vectorstore :: "string \<Rightarrow> int \<Rightarrow> (string \<times> mval) list option \<Rightarrow> (document \<times> real) list"
  bm25 :: "(string list \<Rightarrow> nat \<Rightarrow> real) option"
  bm25_documents :: "document list"
  reranker :: "(string \<Rightarrow> string \<Rightarrow> real) option"
  float_str :: "real \<Rightarrow> string"

text \<open>What \<^verbatim>\<open>f"{v}"\<close> prints for a metadata value.\<close>

fun py_str :: "retriever \<Rightarrow> mval \<Rightarrow> string" where
  "py_str r (MStr s) = s"
| "py_str r (MInt i) = str_int i"
| "py_str r (MFloat x) = float_str r x"
| "py_str r (MBool b) = (if b then ''True'' else ''False'')"
| "py_str r MNone = ''None''"

definition get_doc_id :: "retriever \<Rightarrow> document \<Rightarrow> string" where
  "get_doc_id r doc =
     py_str r (md_get doc ''source'' (MStr '''')) @ ''_'' @ py_str r (md_get doc ''page'' (MInt 0))"

fun normalize_scores :: "real list \<Rightarrow> real list" where
  "normalize_scores [] = []"
| "normalize_scores (s # ss) =
     (let min_score = fold min ss s;
          max_score = fold max ss s
      in if max_score = min_score then replicate (length (s # ss)) 1
         else map (\<lambda>x. (x - min_score) / (max_score - min_score)) (s # ss))"

definition vector_search ::
  "retriever \<Rightarrow> string \<Rightarrow> int \<Rightarrow> (string \<times> mval) list option \<Rightarrow> document list \<times> real list" where
  "vector_search r query k filter_dict =
     (let results = vectorstore r query k filter_dict
      in (map fst results, map snd results))"

definition bm25_search ::
  "retriever \<Rightarrow> string \<Rightarrow> int \<Rightarrow> error + document list \<times> real list" where
  "bm25_search r query k =
     (case bm25 r of
        None \<Rightarrow> Inl RuntimeError
      | Some get_scores \<Rightarrow>
          (let tokenized_query = py_split (py_lower query);
               scores = map (get_scores tokenized_query) [0..<length (bm25_documents r)];
               top_indices = slice_to k (rev (argsort scores))
           in Inr (map (\<lambda>i. bm25_documents r ! i) top_indices,
                   map (\<lambda>i. scores ! i) top_indices)))"

text \<open>\<^verbatim>\<open>weight or configured\<close>: None and 0.0 are both false and give the configured value.\<close>

definition weight_or :: "real option \<Rightarrow> real \<Rightarrow> real" where
  "weight_or w configured = (case w of None \<Rightarrow> configured | Some x \<Rightarrow> if x = 0 then configured else x)"

text \<open>
  The dictionary \<open>doc_scores\<close>, in insertion order: \<open>AList.update\<close> overwrites the entry
  of a key in place and appends a new key at the end, as a Python dict does.
\<close>

type_synonym doc_scores = "(string \<times> document \<times> real) list"

text \<open>The first loop: every vector result is stored under its id (a repeated id is overwritten).\<close>

fun vector_loop :: "retriever \<Rightarrow> real \<Rightarrow> (document \<times> real) list \<Rightarrow> doc_scores \<Rightarrow> doc_scores" where
  "vector_loop r vw [] t = t"
| "vector_loop r vw ((doc, s) # rest) t =
     vector_loop r vw rest (AList.update (get_doc_id r doc) (doc, s * vw) t)"

text \<open>The second loop: a BM25 result adds to the entry of its id when there is one.\<close>

fun bm25_loop :: "retriever \<Rightarrow> real \<Rightarrow> (document \<times> real) list \<Rightarrow> doc_scores \<Rightarrow> doc_scores" where
  "bm25_loop r bw [] t = t"
| "bm25_loop r bw ((doc, s) # rest) t =
     bm25_loop r bw rest
       (case map_of t (get_doc_id r doc) of
          Some (d0, s0) \<Rightarrow> AList.update (get_doc_id r doc) (d0, s0 + s * bw) t
        | None \<Rightarrow> AList.update (get_doc_id r doc) (doc, s * bw) t)"

text \<open>
  \<^verbatim>\<open>sorted(..., key=score, reverse=True)\<close>: descending, and stable (equal scores keep
  their order).
\<close>

definition sorted_desc :: "(document \<times> real) list \<Rightarrow> (document \<times> real) list" where
  "sorted_desc xs = sort_key (\<lambda>x. - snd x) xs"

text \<open>\<^verbatim>\<open>zip(docs, normalized scores)\<close> for the result of one search.\<close>

definition normalized_pairs :: "document list \<times> real list \<Rightarrow> (document \<times> real) list" where
  "normalized_pairs res = zip (fst res) (normalize_scores (snd res))"

definition fusion ::
  "retriever \<Rightarrow> real \<Rightarrow> real \<Rightarrow> document list \<times> real list \<Rightarrow> document list \<times> real list \<Rightarrow> doc_scores"
  where
  "fusion r vw bw vec lexical =
     bm25_loop r bw (normalized_pairs lexical) (vector_loop r vw (normalized_pairs vec) [])"

text \<open>The ids of the documents of a scored list, in order (used to state properties).\<close>

definition doc_ids :: "retriever \<Rightarrow> (document \<times> real) list \<Rightarrow> string list" where
  "doc_ids r xs = map (\<lambda>x. get_doc_id r (fst x)) xs"

abbreviation keyed :: "retriever \<Rightarrow> (document \<times> real) list \<Rightarrow> (string \<times> document \<times> real) list" where
  "keyed r xs \<equiv> map (\<lambda>x. (get_doc_id r (fst x), x)) xs"

definition hybrid_search ::
  "retriever \<Rightarrow> string \<Rightarrow> int \<Rightarrow> real option \<Rightarrow> real option \<Rightarrow> (string \<times> mval) list option
     \<Rightarrow> error + document list \<times> real list" where
  "hybrid_search r query k vw bw filter_dict =
     (if bm25 r = None then Inr (vector_search r query k filter_dict)
      else
        and_then (bm25_search r query (k * 2)) (\<lambda>lexical.
          (let vec = vector_search r query (k * 2) filter_dict;
               sorted_results =
                 slice_to k (sorted_desc (map snd
                   (fusion r (weight_or vw (vector_weight (config r)))
                             (weight_or bw (bm25_weight (config r))) vec lexical)))
           in Inr (map fst sorted_results, map snd sorted_results))))"

text \<open>
  \<open>rerank\<close>.  With a reranker the returned documents carry their new score under the
  metadata key \<^verbatim>\<open>rerank_score\<close> (the source writes it into the document objects; no
  function of the retriever reads that key, and the model returns the updated documents).
  \<^verbatim>\<open>if top_k:\<close> is false for None and for 0.
\<close>

definition rerank ::
  "retriever \<Rightarrow> string \<Rightarrow> document list \<Rightarrow> int option \<Rightarrow> document list \<times> real list" where
  "rerank r query docs top_k =
     (case reranker r of
        None \<Rightarrow> (docs, replicate (length docs) 1)
      | Some predict \<Rightarrow>
          if docs = [] then ([], [])
          else
            (let scores = map (\<lambda>d. predict query (page_content d)) docs;
                 sorted_indices = rev (argsort scores);
                 sorted_indices =
                   (case top_k of
                      None \<Rightarrow> sorted_indices
                    | Some t \<Rightarrow> if t = 0 then sorted_indices else slice_to t sorted_indices);
                 reranked_docs = map (\<lambda>i. docs ! i) sorted_indices;
                 reranked_scores = map (\<lambda>i. scores ! i) sorted_indices
             in (map (\<lambda>(d, s). d\<lparr>metadata := AList.update ''rerank_score'' (MFloat s) (metadata d)\<rparr>)
                     (zip reranked_docs reranked_scores),
                 reranked_scores)))"

text \<open>
  The result of \<open>retrieve\<close>; \<open>processing_time\<close> is wall-clock time and is left out.
  The last four fields are the entries of its \<open>metadata\<close> dictionary.
\<close>

record RetrievalResult =
  documents :: "document list"
  scores :: "real list"
  strategy :: RetrievalStrategy
  meta_query :: string
  meta_k :: int
  total_results :: nat
  filters_applied :: bool

text \<open>
  \<open>retrieve\<close>.  \<^verbatim>\<open>k or default_k\<close> replaces None and 0 by the configured default.
  \<open>filter_kwargs\<close> is \<open>None\<close> for None and for the empty dictionary (both false in
  \<^verbatim>\<open>if apply_filters and filter_kwargs\<close>), and holds the keyword arguments otherwise.
  The four strategies are all the values of the enumeration, so the final
  \<^verbatim>\<open>raise ValueError\<close> has no input.
\<close>

definition k_or :: "int option \<Rightarrow> int \<Rightarrow> int" where
  "k_or k configured = (case k of None \<Rightarrow> configured | Some n \<Rightarrow> if n = 0 then configured else n)"

definition retrieve ::
  "retriever \<Rightarrow> string \<Rightarrow> int option \<Rightarrow> RetrievalStrategy \<Rightarrow> bool \<Rightarrow> criteria option
     \<Rightarrow> error + RetrievalResult" where
  "retrieve r query k strat apply_filters filter_kwargs =
     (let k = k_or k (default_k (config r))
      in and_then
           (case strat of
              VECTOR_ONLY \<Rightarrow> Inr (vector_search r query k None)
            | BM25_ONLY \<Rightarrow> bm25_search r query k
            | HYBRID \<Rightarrow> hybrid_search r query k None None None
            | HYBRID_RERANK \<Rightarrow>
                and_then (hybrid_search r query (k * 2) None None None)
                  (\<lambda>(docs, _). Inr (rerank r query docs (Some k))))
           (\<lambda>(docs, scs).
              and_then
                (case (apply_filters, filter_kwargs) of
                   (True, Some c) \<Rightarrow>
                     and_then (apply_all_filters docs c)
                       (\<lambda>docs'. Inr (docs', slice_to (int (length docs')) scs))
                 | _ \<Rightarrow> Inr (docs, scs))
                (\<lambda>(docs, scs).
                   Inr \<lparr>documents = docs, scores = scs, strategy = strat, meta_query = query,
                        meta_k = k, total_results = length docs,
                        filters_applied = apply_filters\<rparr>)))"

section \<open>The response validator (validator.py, ResponseValidator)\<close>

datatype ConfidenceLevel = ALTA | MEDIA | BAIXA | INSUFICIENTE

record Evidence =
  source :: string
  page :: "int option"
  document_type :: string
  excerpt :: string
  score :: real
  precedence :: "int option"

text \<open>
  The regular expressions of the validator.  The marker patterns are sequences of
  literal characters and of one character class, so a pattern is a list of classes, each
  the list of the characters it accepts; \<open>re_search\<close> is \<^verbatim>\<open>re.search\<close>: a match
  starting anywhere in the text.
\<close>

type_synonym pattern = "char list list"

definition lit :: "string \<Rightarrow> pattern" where
  "lit s = map (\<lambda>c. [c]) s"

fun match_here :: "pattern \<Rightarrow> string \<Rightarrow> bool" where
  "match_here [] s = True"
| "match_here (cls # rest) [] = False"
| "match_here (cls # rest) (c # cs) = (c \<in> set cls \<and> match_here rest cs)"

fun re_search :: "pattern \<Rightarrow> string \<Rightarrow> bool" where
  "re_search p [] = match_here p []"
| "re_search p (c # cs) = (match_here p (c # cs) \<or> re_search p cs)"

text \<open>
  The accented letters of the markers, by code point: U+00E3, U+00E1, U+00E7, U+00F5,
  U+00EA, U+00E9, U+00ED.
\<close>

definition a_tilde :: char where "a_tilde = CHR 0xE3"
definition a_acute :: char where "a_acute = CHR 0xE1"
definition c_cedilla :: char where "c_cedilla = CHR 0xE7"
definition o_tilde :: char where "o_tilde = CHR 0xF5"
definition e_circ :: char where "e_circ = CHR 0xEA"
definition e_acute :: char where "e_acute = CHR 0xE9"
definition i_acute :: char where "i_acute = CHR 0xED"

definition no_answer_patterns :: "pattern list" where
  "no_answer_patterns =
     [lit (''n'' @ [a_tilde] @ ''o localizado''),
      lit (''n'' @ [a_tilde] @ ''o foi encontrad'') @ [''oa''],
      lit ''insuficiente'',
      lit (''n'' @ [a_tilde] @ ''o h'' @ [a_acute] @ '' informa'' @ [c_cedilla, a_tilde] @ ''o''),
      lit (''n'' @ [a_tilde] @ ''o consta'')]"

definition conflict_patterns :: "pattern list" where
  "conflict_patterns =
     [lit ''conflito normativo'',
      lit (''interpreta'' @ [c_cedilla, o_tilde] @ ''es conflitantes''),
      lit (''diverg'' @ [e_circ] @ ''ncia'')]"

definition is_no_answer :: "string \<Rightarrow> bool" where
  "is_no_answer answer = list_ex (\<lambda>p. re_search p (py_lower answer)) no_answer_patterns"

definition detect_conflicts :: "string \<Rightarrow> bool" where
  "detect_conflicts answer = list_ex (\<lambda>p. re_search p (py_lower answer)) conflict_patterns"

text \<open>
  \<^verbatim>\<open>re.findall(r"\[(\d+)\]", answer)\<close>: the digit groups of the non-overlapping
  matches, from left to right.  A match starts at an opening bracket followed by one or
  more digits and a closing bracket; the scan resumes after the match.
\<close>

definition is_digit :: "char \<Rightarrow> bool" where
  "is_digit c = (let n = (of_char c :: nat) in 48 \<le> n \<and> n \<le> 57)"

function findall_citations :: "string \<Rightarrow> string list" where
  "findall_citations [] = []"
| "findall_citations (c # cs) =
     (if c = CHR ''[''
      then (let ds = takeWhile is_digit cs; rest = dropWhile is_digit cs
            in if ds \<noteq> [] \<and> rest \<noteq> [] \<and> hd rest = CHR '']''
               then ds # findall_citations (tl rest)
               else findall_citations cs)
      else findall_citations cs)"
  by pat_completeness auto
termination
proof (relation "measure length")
  show "wf (measure length)" by simp
next
  fix c :: char and cs ds rest :: string
  assume "rest = dropWhile is_digit cs"
  then have "length (tl rest) \<le> length cs"
    using length_dropWhile_le [of is_digit cs] by simp
  then show "(tl rest, c # cs) \<in> measure length" by simp
qed simp_all

text \<open>\<^verbatim>\<open>c.isdigit()\<close> and \<^verbatim>\<open>int(c)\<close> on a string of decimal digits.\<close>

definition isdigit :: "string \<Rightarrow> bool" where
  "isdigit c = (c \<noteq> [] \<and> list_all is_digit c)"

definition int_of_digits :: "string \<Rightarrow> nat" where
  "int_of_digits c = foldl (\<lambda>n d. 10 * n + (of_char d - 48)) 0 c"

definition validate_citations :: "string \<Rightarrow> nat \<Rightarrow> real" where
  "validate_citations answer num_evidences =
     (let citations = findall_citations answer
      in if citations = [] then 0
         else
           (let valid_citations =
                  map int_of_digits
                    (filter (\<lambda>c. isdigit c \<and> 1 \<le> int_of_digits c \<and> int_of_digits c \<le> num_evidences)
                       citations)
            in if valid_citations = [] then 0
               else
                 (let unique_citations = length (remdups valid_citations);
                      citation_coverage =
                        (if num_evidences > 0 then real unique_citations / real num_evidences else 0);
                      citation_density =
                        real (length valid_citations) / real (max (length (py_split answer)) 1);
                      citation_density = min (citation_density * 100) 1;
                      total = citation_coverage * 0.7 + citation_density * 0.3
                  in min total 1)))"

text \<open>\<^verbatim>\<open>re.search(r'\.\s+[A-Z]', answer)\<close>: a full stop, whitespace, an ASCII capital.\<close>

definition is_upper_ascii :: "char \<Rightarrow> bool" where
  "is_upper_ascii c = (let n = (of_char c :: nat) in 65 \<le> n \<and> n \<le> 90)"

fun has_structure :: "string \<Rightarrow> bool" where
  "has_structure [] = False"
| "has_structure (c # cs) =
     ((c = CHR ''.'' \<and> takeWhile py_isspace cs \<noteq> [] \<and>
       (case dropWhile py_isspace cs of [] \<Rightarrow> False | d # _ \<Rightarrow> is_upper_ascii d))
      \<or> has_structure cs)"

definition validate_completeness :: "string \<Rightarrow> string \<Rightarrow> real" where
  "validate_completeness answer question =
     (let min_length = 100; ideal_length = 500; answer_length = length answer
      in if answer_length < min_length then 0.3
         else
           (let length_score =
                  (if answer_length \<ge> ideal_length then 1
                   else real answer_length / real ideal_length);
                structure_score = (if has_structure answer then 1 else 0.7);
                total = length_score * 0.6 + structure_score * 0.4
            in min total 1))"

definition validate_evidence_quality :: "Evidence list \<Rightarrow> real \<Rightarrow> real" where
  "validate_evidence_quality evidences avg_score =
     (if evidences = [] then 0
      else
        (let num_evidences = length evidences;
             quantity_score = min (real num_evidences / 5) 1;
             relevance_score = min avg_score 1;
             precedence_scores =
               concat (map (\<lambda>e. case precedence e of
                                      None \<Rightarrow> []
                                    | Some p \<Rightarrow> [1 - real_of_int p / 100])
                           evidences);
             precedence_score =
               (if precedence_scores \<noteq> []
                then sum_list precedence_scores / real (length precedence_scores)
                else 0.5);
             total = quantity_score * 0.3 + relevance_score * 0.5 + precedence_score * 0.2
         in min total 1))"

text \<open>\<open>scores\<close> is the dictionary of component scores, as an association list.\<close>

definition calculate_confidence :: "(string \<times> real) list \<Rightarrow> nat \<Rightarrow> ConfidenceLevel" where
  "calculate_confidence component_scores num_evidences =
     (let avg_score =
            (if component_scores \<noteq> []
             then sum_list (map snd component_scores) / real (length component_scores)
             else 0);
          avg_score =
            (if num_evidences < 2 then avg_score * 0.7
             else if num_evidences \<ge> 5 then avg_score * 1.1
             else avg_score);
          avg_score = min avg_score 1
      in if avg_score \<ge> 0.8 then ALTA
         else if avg_score \<ge> 0.6 then MEDIA
         else if avg_score \<ge> 0.4 then BAIXA
         else INSUFICIENTE)"

text \<open>The dictionary that \<open>validate_response\<close> returns.\<close>

record ValidationResult =
  is_valid :: bool
  confidence :: ConfidenceLevel
  warnings :: "string list option"
  component_scores :: "(string \<times> real) list"

definition warn_no_answer :: string where
  "warn_no_answer = ''Resposta indica informa'' @ [c_cedilla, a_tilde] @ ''o insuficiente''"

definition warn_citations :: string where
  "warn_citations = ''Poucas cita'' @ [c_cedilla, o_tilde] @ ''es encontradas na resposta''"

definition warn_incomplete :: string where
  "warn_incomplete = ''Resposta pode estar incompleta''"

definition warn_evidence :: string where
  "warn_evidence = ''Qualidade das evid'' @ [e_circ] @ ''ncias '' @ [e_acute] @ '' baixa''"

definition warn_conflict :: string where
  "warn_conflict = ''Poss'' @ [i_acute] @ ''vel conflito normativo detectado''"

definition validate_response ::
  "string \<Rightarrow> string \<Rightarrow> Evidence list \<Rightarrow> real \<Rightarrow> ValidationResult" where
  "validate_response question answer evidences avg_score =
     (if is_no_answer answer
      then \<lparr>is_valid = True, confidence = INSUFICIENTE, warnings = Some [warn_no_answer],
            component_scores = []\<rparr>
      else
        (let citation_score = validate_citations answer (length evidences);
             ws = (if citation_score < 0.5 then [warn_citations] else []);
             completeness_score = validate_completeness answer question;
             ws = ws @ (if completeness_score < 0.5 then [warn_incomplete] else []);
             evidence_score = validate_evidence_quality evidences avg_score;
             ws = ws @ (if evidence_score < 0.5 then [warn_evidence] else []);
             scs = [(''citations'', citation_score), (''completeness'', completeness_score),
                    (''evidence_quality'', evidence_score)]
         in if detect_conflicts answer
            then \<lparr>is_valid = True, confidence = BAIXA, warnings = Some (ws @ [warn_conflict]),
                  component_scores = scs\<rparr>
            else \<lparr>is_valid = True, confidence = calculate_confidence scs (length evidences),
                  warnings = (if ws \<noteq> [] then Some ws else None),
                  component_scores = scs\<rparr>))"

text \<open>
  The aggregation as the specification words it: the mean of the three component scores,
  times 0.7 below two evidences, times 1.1 (capped at 1.0) from five evidences on, mapped
  to a label by the fixed thresholds.
\<close>

definition spec_aggregate :: "real \<Rightarrow> real \<Rightarrow> real \<Rightarrow> nat \<Rightarrow> ConfidenceLevel" where
  "spec_aggregate citation completeness quality evidence_count =
     (let mean = (citation + completeness + quality) / 3;
          adjusted =
            (if evidence_count < 2 then mean * 0.7
             else if evidence_count \<ge> 5 then min (mean * 1.1) 1
             else mean)
      in if adjusted \<ge> 0.8 then ALTA
         else if adjusted \<ge> 0.6 then MEDIA
         else if adjusted \<ge> 0.4 then BAIXA
         else INSUFICIENTE)"

section \<open>Sample inputs\<close>

definition doc_a :: document where
  "doc_a = \<lparr>page_content = ''A'',
            metadata = [(''status'', MStr ''Revogado''), (''source'', MStr ''a.pdf''), (''page'', MInt 1)]\<rparr>"

definition doc_b :: document where
  "doc_b = \<lparr>page_content = ''B'',
            metadata = [(''source'', MStr ''b.pdf''), (''page'', MInt 1), (''precedencia'', MInt 3)]\<rparr>"

definition doc_c :: document where
  "doc_c = \<lparr>page_content = ''C'',
            metadata = [(''status'', MStr ''Vigente''), (''source'', MStr ''c.pdf''),
                        (''tipo'', MStr ''Portaria'')]\<rparr>"

definition ceiling_5 :: criteria where
  "ceiling_5 = \<lparr>status = None, min_precedence = Some 5, start_date = None, end_date = None,
                 source_types = None\<rparr>"

definition ev1 :: Evidence where
  "ev1 = \<lparr>source = ''Resolucao 123'', page = Some 1, document_type = ''Resolucao'',
           excerpt = ''Texto exemplo'', score = 0.9, precedence = Some 1\<rparr>"

definition ev2 :: Evidence where
  "ev2 = \<lparr>source = ''Portaria 456'', page = Some 2, document_type = ''Portaria'',
           excerpt = ''Texto exemplo'', score = 0.8, precedence = Some 2\<rparr>"

definition question_prazo :: string where
  "question_prazo = ''Qual o prazo?''"

definition answer_conflict :: string where
  "answer_conflict = ''Existe conflito normativo.''"

definition answer_plain :: string where
  "answer_plain = ''O prazo e de 30 dias.''"

definition answer_cited :: string where
  "answer_cited = ''O prazo e de 30 dias [1].''"

text \<open>
  A retriever over a vector store that ranks a revoked document above an active one; no
  lexical index, no reranker.
\<close>

definition r_status :: retriever where
  "r_status =
     \<lparr>config = \<lparr>default_k = 5, vector_weight = 0.5, bm25_weight = 0.5\<rparr>,
      vectorstore = (\<lambda>query k filter_dict. slice_to k [(doc_a, 0.9), (doc_b, 0.4)]),
      bm25 = None, bm25_documents = [], reranker = None, float_str = (\<lambda>x. [])\<rparr>"

definition vigente_only :: criteria where
  "vigente_only = \<lparr>status = Some ''Vigente'', min_precedence = None, start_date = None,
                    end_date = None, source_types = None\<rparr>"

text \<open>
  A four-page corpus, indexed by both methods, without a reranker.  The vector store ranks
  the pages 1, 2, 3, 4; the lexical index ranks them 2, 3, 4, 1.
\<close>

definition page_doc :: "string \<Rightarrow> int \<Rightarrow> document" where
  "page_doc text n = \<lparr>page_content = text, metadata = [(''source'', MStr ''n.pdf''), (''page'', MInt n)]\<rparr>"

definition d1 :: document where "d1 = page_doc ''A'' 1"
definition d2 :: document where "d2 = page_doc ''B'' 2"
definition d3 :: document where "d3 = page_doc ''C'' 3"
definition d4 :: document where "d4 = page_doc ''D'' 4"

definition r_pages :: retriever where
  "r_pages =
     \<lparr>config = \<lparr>default_k = 5, vector_weight = 0.6, bm25_weight = 0.4\<rparr>,
      vectorstore = (\<lambda>query k filter_dict. slice_to k [(d1, 1), (d2, 0.9), (d3, 0.7), (d4, 0)]),
      bm25 = Some (\<lambda>tokens i. [0, 10, 5, 1] ! i),
      bm25_documents = [d1, d2, d3, d4], reranker = None, float_str = (\<lambda>x. [])\<rparr>"

text \<open>The same retriever configured with the weights 1 and 0.\<close>

definition r_pages_vector_only :: retriever where
  "r_pages_vector_only = r_pages\<lparr>config := \<lparr>default_k = 5, vector_weight = 1, bm25_weight = 0\<rparr>\<rparr>"

text \<open>
  A corpus with two chunks of the same page (same source and page, so the same id) and one
  chunk of another page; the vector store returns a chunk of a third page.
\<close>

definition chunk_1a :: document where "chunk_1a = page_doc ''first chunk of page 1'' 1"
definition chunk_1b :: document where "chunk_1b = page_doc ''second chunk of page 1'' 1"

definition r_chunks :: retriever where
  "r_chunks =
     \<lparr>config = \<lparr>default_k = 5, vector_weight = 0.6, bm25_weight = 0.4\<rparr>,
      vectorstore = (\<lambda>query k filter_dict. slice_to k [(d3, 1)]),
      bm25 = Some (\<lambda>tokens i. [10, 2.5, 0] ! i),
      bm25_documents = [chunk_1a, chunk_1b, d2], reranker = None, float_str = (\<lambda>x. [])\<rparr>"

text \<open>
  A retriever configured with the weights 1 and 0 whose vector store returns both chunks
  of page 1 ahead of the pages 2 and 3.
\<close>

definition r_dup :: retriever where
  "r_dup =
     \<lparr>config = \<lparr>default_k = 5, vector_weight = 1, bm25_weight = 0\<rparr>,
      vectorstore = (\<lambda>query k filter_dict.
                       slice_to k [(chunk_1a, 1), (chunk_1b, 0.9), (d2, 0.5), (d3, 0)]),
      bm25 = Some (\<lambda>tokens i. [3, 2, 1, 0] ! i),
      bm25_documents = [chunk_1a, chunk_1b, d2, d3], reranker = None, float_str = (\<lambda>x. [])\<rparr>"

section \<open>Properties of the governance filters\<close>

lemma comprehension_Inr:
  "comprehension p xs = Inr ys \<Longrightarrow> ys = filter (\<lambda>x. p x = Inr True) xs"
  by (induction xs arbitrary: ys) (auto split: sum.splits if_splits)

lemma comprehension_all_true:
  "(\<And>x. x \<in> set xs \<Longrightarrow> p x = Inr True) \<Longrightarrow> comprehension p xs = Inr xs"
  by (induction xs) auto

lemma comprehension_stable:
  assumes "comprehension p xs = Inr ys" and "set zs \<subseteq> set ys"
  shows "comprehension p zs = Inr zs"
proof -
  have "ys = filter (\<lambda>x. p x = Inr True) xs"
    using comprehension_Inr [OF assms(1)] .
  with assms(2) have "\<And>x. x \<in> set zs \<Longrightarrow> p x = Inr True"
    by auto
  then show ?thesis
    by (rule comprehension_all_true)
qed

lemma comprehension_subset: "comprehension p xs = Inr ys \<Longrightarrow> set ys \<subseteq> set xs"
  by (drule comprehension_Inr) auto

lemma filter_by_status_stable:
  "set zs \<subseteq> set (filter_by_status D s) \<Longrightarrow> filter_by_status zs s = zs"
  by (auto simp: filter_by_status_def filter_id_conv)

lemma filter_by_precedence_subset: "filter_by_precedence D m = Inr R \<Longrightarrow> set R \<subseteq> set D"
  by (auto simp: filter_by_precedence_def split: option.splits dest: comprehension_subset)

lemma filter_by_precedence_stable:
  "filter_by_precedence D m = Inr R \<Longrightarrow> set zs \<subseteq> set R \<Longrightarrow> filter_by_precedence zs m = Inr zs"
  by (auto simp: filter_by_precedence_def split: option.splits intro: comprehension_stable)

lemma filter_by_date_range_subset:
  "filter_by_date_range D s e = Inr R \<Longrightarrow> set R \<subseteq> set D"
  by (auto simp: filter_by_date_range_def and_then_def
           split: option.splits sum.splits if_splits dest!: comprehension_subset)

lemma filter_by_date_range_stable:
  assumes "filter_by_date_range D s e = Inr R" and "set zs \<subseteq> set R"
  shows "filter_by_date_range zs s e = Inr zs"
proof -
  obtain M where M: "(case s of None \<Rightarrow> Inr D | Some t \<Rightarrow> if t = [] then Inr D else
      comprehension (\<lambda>doc. py_ge (md_get doc ''vigencia_inicio'' (MStr '''')) (MStr t)) D) = Inr M"
    and R: "(case e of None \<Rightarrow> Inr M | Some t \<Rightarrow> if t = [] then Inr M else
      comprehension (\<lambda>doc. py_le (md_get doc ''vigencia_fim'' (MStr ''9999-12-31'')) (MStr t)) M) = Inr R"
    using assms(1) by (auto simp: filter_by_date_range_def and_then_def split: sum.splits)
  have RM: "set R \<subseteq> set M"
    using R by (auto split: option.splits if_splits dest!: comprehension_subset)
  have 1: "(case s of None \<Rightarrow> Inr zs | Some t \<Rightarrow> if t = [] then Inr zs else
      comprehension (\<lambda>doc. py_ge (md_get doc ''vigencia_inicio'' (MStr '''')) (MStr t)) zs) = Inr zs"
    using M RM assms(2) by (auto split: option.splits if_splits intro: comprehension_stable)
  have 2: "(case e of None \<Rightarrow> Inr zs | Some t \<Rightarrow> if t = [] then Inr zs else
      comprehension (\<lambda>doc. py_le (md_get doc ''vigencia_fim'' (MStr ''9999-12-31'')) (MStr t)) zs) = Inr zs"
    using R assms(2) by (auto split: option.splits if_splits intro: comprehension_stable)
  show ?thesis
    unfolding filter_by_date_range_def and_then_def by (simp add: 1 2)
qed

lemma filter_by_source_type_idem:
  "filter_by_source_type (filter_by_source_type D ts) ts = filter_by_source_type D ts"
  by (auto simp: filter_by_source_type_def split: option.splits list.splits)

lemma filter_by_source_type_subset: "set (filter_by_source_type D ts) \<subseteq> set D"
  by (auto simp: filter_by_source_type_def split: option.splits list.splits)

text \<open>A list that came out of the pipeline goes through it again unchanged and without error.\<close>

lemma apply_all_filters_stable:
  assumes "apply_all_filters D c = Inr R"
  shows "apply_all_filters R c = Inr R"
proof -
  define f1 where "f1 = filter_by_status D (status_of c)"
  obtain f2 f3 where
    f2: "filter_by_precedence f1 (min_precedence c) = Inr f2" and
    f3: "filter_by_date_range f2 (start_date c) (end_date c) = Inr f3" and
    R: "R = filter_by_source_type f3 (source_types c)"
    using assms unfolding apply_all_filters_def and_then_def f1_def
    by (auto split: sum.splits)
  have R3: "set R \<subseteq> set f3"
    unfolding R by (rule filter_by_source_type_subset)
  have R2: "set R \<subseteq> set f2"
    using R3 filter_by_date_range_subset [OF f3] by blast
  have R1: "set R \<subseteq> set f1"
    using R2 filter_by_precedence_subset [OF f2] by blast
  have s1: "filter_by_status R (status_of c) = R"
    using R1 unfolding f1_def by (rule filter_by_status_stable)
  have s2: "filter_by_precedence R (min_precedence c) = Inr R"
    using f2 R2 by (rule filter_by_precedence_stable)
  have s3: "filter_by_date_range R (start_date c) (end_date c) = Inr R"
    using f3 R3 by (rule filter_by_date_range_stable)
  have s4: "filter_by_source_type R (source_types c) = R"
    unfolding R by (rule filter_by_source_type_idem)
  show ?thesis
    unfolding apply_all_filters_def and_then_def by (simp add: s1 s2 s3 s4)
qed

lemmas sample_defs = doc_a_def doc_b_def doc_c_def ceiling_5_def

lemmas filter_defs =
  apply_all_filters_def and_then_def filter_by_status_def filter_by_precedence_def
  filter_by_date_range_def filter_by_source_type_def status_of_def md_get_def py_eq_def

text \<open>
  C9.  Applying the whole filter pipeline to its own output gives the same result as
  applying it once, for every document list and every criteria: when the first pass
  returns a list, the second pass returns that list; when the first pass raises (a
  metadata value that cannot be compared), there is no list to filter again and the
  composition raises the same exception.
\<close>

theorem apply_all_filters_idempotent:
  "and_then (apply_all_filters D c) (\<lambda>R. apply_all_filters R c) = apply_all_filters D c"
proof (cases "apply_all_filters D c")
  case (Inl e)
  then show ?thesis by (simp add: and_then_def)
next
  case (Inr R)
  then show ?thesis by (simp add: and_then_def apply_all_filters_stable)
qed

theorem apply_all_filters_idempotent_witness:
  "and_then (apply_all_filters [doc_a, doc_b, doc_c] ceiling_5)
     (\<lambda>R. apply_all_filters R ceiling_5) = Inr [doc_b]"
  using apply_all_filters_idempotent [of "[doc_a, doc_b, doc_c]" ceiling_5]
  by (simp add: filter_defs sample_defs)



section \<open>Score normalisation\<close>

lemma fold_min_Min: "fold min ss (s::real) = Min (set (s # ss))"
  using Min.set_eq_fold [of s ss] by simp

lemma fold_max_Max: "fold max ss (s::real) = Max (set (s # ss))"
  using Max.set_eq_fold [of s ss] by simp

lemma normalize_scores_unfold:
  "xs \<noteq> [] \<Longrightarrow> normalize_scores xs =
     (if Max (set xs) = Min (set xs) then replicate (length xs) 1
      else map (\<lambda>x. (x - Min (set xs)) / (Max (set xs) - Min (set xs))) xs)"
  by (cases xs)
     (simp_all only: normalize_scores.simps fold_min_Min fold_max_Max Let_def list.distinct)

lemma length_normalize_scores: "length (normalize_scores xs) = length xs"
  by (cases "xs = []") (simp_all add: normalize_scores_unfold)

lemma normalize_scores_range:
  assumes "y \<in> set (normalize_scores xs)"
  shows "0 \<le> y \<and> y \<le> 1"
proof (cases "xs = []")
  case True
  with assms show ?thesis by simp
next
  case False
  show ?thesis
  proof (cases "Max (set xs) = Min (set xs)")
    case True
    with assms False show ?thesis by (auto simp: normalize_scores_unfold)
  next
    case ne: False
    from assms False ne obtain x where x: "x \<in> set xs"
      and y: "y = (x - Min (set xs)) / (Max (set xs) - Min (set xs))"
      by (auto simp: normalize_scores_unfold)
    have lo: "Min (set xs) \<le> x" and hi: "x \<le> Max (set xs)"
      using x by simp_all
    have "Min (set xs) \<le> Max (set xs)" using lo hi by linarith
    with ne have pos: "0 < Max (set xs) - Min (set xs)" by linarith
    show ?thesis
      unfolding y using lo hi pos by simp
  qed
qed

lemma normalize_scores_order:
  assumes "i < length xs" "j < length xs"
  shows "normalize_scores xs ! i \<le> normalize_scores xs ! j \<longleftrightarrow> xs ! i \<le> xs ! j"
proof -
  have ne: "xs \<noteq> []" using assms by auto
  have bi: "Min (set xs) \<le> xs ! i" "xs ! i \<le> Max (set xs)"
    and bj: "Min (set xs) \<le> xs ! j" "xs ! j \<le> Max (set xs)"
    using assms by simp_all
  show ?thesis
  proof (cases "Max (set xs) = Min (set xs)")
    case True
    with bi bj have "xs ! i = xs ! j" by linarith
    with True ne assms show ?thesis by (simp add: normalize_scores_unfold)
  next
    case False
    with bi have pos: "0 < Max (set xs) - Min (set xs)" by linarith
    have "(xs ! i - Min (set xs)) / (Max (set xs) - Min (set xs))
            \<le> (xs ! j - Min (set xs)) / (Max (set xs) - Min (set xs))
          \<longleftrightarrow> xs ! i \<le> xs ! j"
      using pos by (simp add: divide_le_cancel)
    then show ?thesis
      using False ne assms by (simp add: normalize_scores_unfold)
  qed
qed

text \<open>
  C6.  Score normalisation returns the empty list on the empty list; on a non-empty list
  whose maximum equals its minimum it returns 1.0 for every element; otherwise it returns
  \<open>(s - min) / (max - min)\<close> for every element \<open>s\<close>.  Consequently the output has the
  length of the input, every output lies in [0, 1], and the outputs compare as the inputs
  do.  (Scores are real numbers here; floating-point rounding is not modelled.)
\<close>

theorem normalize_scores_spec:
  "normalize_scores [] = [] \<and>
   (xs \<noteq> [] \<and> Max (set xs) = Min (set xs) \<longrightarrow> normalize_scores xs = replicate (length xs) 1) \<and>
   (xs \<noteq> [] \<and> Max (set xs) \<noteq> Min (set xs) \<longrightarrow>
      normalize_scores xs = map (\<lambda>s. (s - Min (set xs)) / (Max (set xs) - Min (set xs))) xs) \<and>
   length (normalize_scores xs) = length xs \<and>
   (\<forall>y \<in> set (normalize_scores xs). 0 \<le> y \<and> y \<le> 1) \<and>
   (\<forall>i j. i < length xs \<and> j < length xs \<longrightarrow>
      (normalize_scores xs ! i \<le> normalize_scores xs ! j \<longleftrightarrow> xs ! i \<le> xs ! j))"
  using normalize_scores_range [of _ xs] normalize_scores_order [of _ xs]
  by (simp add: normalize_scores_unfold length_normalize_scores)

theorem normalize_scores_spec_witness:
  "[2, 4, 3 :: real] \<noteq> [] \<and> Max (set [2, 4, 3 :: real]) \<noteq> Min (set [2, 4, 3]) \<and>
   normalize_scores [2, 4, 3] = [0, 1, 1 / 2] \<and>
   [5, 5 :: real] \<noteq> [] \<and> Max (set [5, 5 :: real]) = Min (set [5, 5]) \<and>
   normalize_scores [5, 5] = [1, 1] \<and>
   (1 :: real) \<in> set (normalize_scores [2, 4, 3]) \<and>
   (0 :: nat) < length [2, 4, 3 :: real] \<and> (2 :: nat) < length [2, 4, 3 :: real] \<and>
   normalize_scores [2, 4, 3] ! 0 \<le> normalize_scores [2, 4, 3] ! 2"
  using normalize_scores_spec [of "[2, 4, 3]"] normalize_scores_spec [of "[5, 5]"]
  by simp

section \<open>Properties of the response validator\<close>

lemmas char_defs =
  a_tilde_def a_acute_def c_cedilla_def o_tilde_def e_circ_def e_acute_def i_acute_def

lemmas text_defs =
  is_no_answer_def detect_conflicts_def no_answer_patterns_def conflict_patterns_def
  lit_def py_lower_def lower_char_def char_defs

lemmas validator_defs =
  validate_response_def validate_citations_def validate_completeness_def
  validate_evidence_quality_def calculate_confidence_def spec_aggregate_def
  isdigit_def is_digit_def int_of_digits_def py_split_def py_isspace_def Let_def

lemmas answer_defs = question_prazo_def answer_conflict_def answer_plain_def answer_cited_def

lemma answer_conflict_markers:
  "\<not> is_no_answer answer_conflict" "detect_conflicts answer_conflict"
  by (simp_all add: text_defs answer_defs)

lemma answer_plain_markers:
  "\<not> is_no_answer answer_plain" "\<not> detect_conflicts answer_plain"
  by (simp_all add: text_defs answer_defs)

lemma answer_cited_markers:
  "\<not> is_no_answer answer_cited" "\<not> detect_conflicts answer_cited"
  by (simp_all add: text_defs answer_defs)

lemma validate_citations_no_evidence: "validate_citations answer 0 = 0"
  by (simp add: validate_citations_def Let_def)

lemma validate_completeness_le_1: "validate_completeness answer question \<le> 1"
  by (simp add: validate_completeness_def Let_def)

lemma calculate_confidence_no_evidence:
  assumes "c \<le> 1"
  shows "calculate_confidence
           [(''citations'', 0), (''completeness'', c), (''evidence_quality'', 0)] 0
         = INSUFICIENTE"
proof -
  have "c / 3 * 0.7 < 0.4" using assms by simp
  then show ?thesis
    by (simp add: calculate_confidence_def Let_def min_def)
qed

text \<open>
  C7, as stated: an empty evidence list always gives INSUFICIENTE.  It fails for an
  answer that contains a conflict marker and no no-answer marker: step 5 of
  \<open>validate_response\<close> returns BAIXA before the aggregation.
\<close>

theorem zero_evidence_confidence_counterexample:
  "confidence (validate_response question_prazo answer_conflict [] 0) = BAIXA \<and>
   confidence (validate_response question_prazo answer_conflict [] 0) \<noteq> INSUFICIENTE"
  by (simp add: validate_response_def Let_def answer_conflict_markers)

text \<open>
  C7, amended.  With an empty evidence list the confidence is INSUFICIENTE, except when
  the answer matches a conflict marker and no no-answer marker, where it is BAIXA.
\<close>

theorem zero_evidence_confidence:
  "confidence (validate_response question answer [] avg_score) =
     (if \<not> is_no_answer answer \<and> detect_conflicts answer then BAIXA else INSUFICIENTE)"
  by (simp add: validate_response_def Let_def validate_citations_no_evidence
        validate_evidence_quality_def calculate_confidence_no_evidence
        validate_completeness_le_1)

theorem zero_evidence_confidence_witness:
  "\<not> detect_conflicts answer_plain \<and>
   confidence (validate_response question_prazo answer_plain [] 0) = INSUFICIENTE"
  using zero_evidence_confidence [of question_prazo answer_plain 0]
  by (simp add: answer_plain_markers)

lemma calculate_confidence_aggregate:
  "calculate_confidence [(k1, c), (k2, m), (k3, e)] n = spec_aggregate c m e n"
  by (simp add: calculate_confidence_def spec_aggregate_def Let_def min_def add.assoc)

text \<open>
  C8.  The label computed by \<open>calculate_confidence\<close> from the three component scores and
  the evidence count is the one the specification describes (\<open>spec_aggregate\<close>: mean of
  the three scores, times 0.7 below two evidences, times 1.1 capped at 1.0 from five on,
  thresholds 0.8, 0.6 and 0.4), and whenever \<open>validate_response\<close> reaches the aggregation
  (no no-answer marker and no conflict marker) its confidence is that label.  The label is
  a function of the three scores and the count alone.
\<close>

theorem aggregation_label:
  "calculate_confidence [(''citations'', c), (''completeness'', m), (''evidence_quality'', e)] n
     = spec_aggregate c m e n \<and>
   (\<not> is_no_answer answer \<and> \<not> detect_conflicts answer \<longrightarrow>
      confidence (validate_response question answer evidences avg_score) =
        spec_aggregate (validate_citations answer (length evidences))
          (validate_completeness answer question)
          (validate_evidence_quality evidences avg_score) (length evidences))"
  by (simp add: validate_response_def Let_def calculate_confidence_aggregate)

lemma answer_cited_citations: "validate_citations answer_cited (length [ev1, ev2]) = 0.65"
  by (simp add: validator_defs answer_defs)

lemma sample_evidence_quality: "validate_evidence_quality [ev1, ev2] (85 / 100) = 0.742"
  by (simp add: validator_defs ev1_def ev2_def)

lemma answer_cited_completeness: "validate_completeness answer_cited question_prazo = 0.3"
  by (simp add: validator_defs answer_defs)

theorem aggregation_label_witness:
  "\<not> is_no_answer answer_cited \<and> \<not> detect_conflicts answer_cited \<and>
   confidence (validate_response question_prazo answer_cited [ev1, ev2] (85 / 100)) = BAIXA"
proof -
  have "confidence (validate_response question_prazo answer_cited [ev1, ev2] (85 / 100))
        = spec_aggregate 0.65 0.3 0.742 (length [ev1, ev2])"
    using aggregation_label [of 0 0 0 0 answer_cited question_prazo "[ev1, ev2]" "85 / 100"]
      answer_cited_markers
    unfolding answer_cited_citations sample_evidence_quality answer_cited_completeness
    by blast
  also have "\<dots> = BAIXA"
    by (simp add: spec_aggregate_def)
  finally show ?thesis
    using answer_cited_markers by simp
qed

section \<open>Properties of the fusion\<close>

lemma vector_loop_lookup:
  "distinct (map (\<lambda>x. get_doc_id r (fst x)) V) \<Longrightarrow>
   map_of (vector_loop r vw V t) key =
     (case map_of (keyed r V) key of
        Some (d, s) \<Rightarrow> Some (d, s * vw)
      | None \<Rightarrow> map_of t key)"
proof (induction V arbitrary: t)
  case Nil
  then show ?case by simp
next
  case (Cons x V)
  obtain d s where x: "x = (d, s)" by (cases x)
  have notin: "map_of (keyed r V) (get_doc_id r d) = None"
    using Cons.prems by (auto simp: x map_of_eq_None_iff image_iff)
  show ?case
    using Cons.prems notin
    by (simp add: x Cons.IH update_conv' split: option.splits)
qed

lemma bm25_loop_lookup:
  "distinct (map (\<lambda>x. get_doc_id r (fst x)) B) \<Longrightarrow>
   map_of (bm25_loop r bw B t) key =
     (case map_of (keyed r B) key of
        Some (d, s) \<Rightarrow>
          (case map_of t key of
             Some (d0, s0) \<Rightarrow> Some (d0, s0 + s * bw)
           | None \<Rightarrow> Some (d, s * bw))
      | None \<Rightarrow> map_of t key)"
proof (induction B arbitrary: t)
  case Nil
  then show ?case by simp
next
  case (Cons x B)
  obtain d s where x: "x = (d, s)" by (cases x)
  have notin: "map_of (keyed r B) (get_doc_id r d) = None"
    using Cons.prems by (auto simp: x map_of_eq_None_iff image_iff)
  show ?case
    using Cons.prems notin
    by (auto simp add: x Cons.IH update_conv' split: option.splits)
qed

lemma vector_loop_keys:
  "fst ` set (vector_loop r vw V t) = fst ` set t \<union> (\<lambda>x. get_doc_id r (fst x)) ` set V"
proof (induction V arbitrary: t)
  case Nil
  then show ?case by simp
next
  case (Cons x V)
  obtain d s where x: "x = (d, s)" by (cases x)
  have "fst ` set (vector_loop r vw (x # V) t) =
        fst ` set (AList.update (get_doc_id r d) (d, s * vw) t)
          \<union> (\<lambda>x. get_doc_id r (fst x)) ` set V"
    by (simp only: x vector_loop.simps Cons.IH)
  also have "\<dots> = fst ` set t \<union> (\<lambda>x. get_doc_id r (fst x)) ` set (x # V)"
    unfolding dom_update by (auto simp: x)
  finally show ?case .
qed

lemma bm25_loop_keys:
  "fst ` set (bm25_loop r bw B t) = fst ` set t \<union> (\<lambda>x. get_doc_id r (fst x)) ` set B"
proof (induction B arbitrary: t)
  case Nil
  then show ?case by simp
next
  case (Cons x B)
  obtain d s where x: "x = (d, s)" by (cases x)
  obtain v where "bm25_loop r bw (x # B) t = bm25_loop r bw B (AList.update (get_doc_id r d) v t)"
    by (cases "map_of t (get_doc_id r d)") (auto simp: x)
  then have "fst ` set (bm25_loop r bw (x # B) t) =
        fst ` set (AList.update (get_doc_id r d) v t)
          \<union> (\<lambda>x. get_doc_id r (fst x)) ` set B"
    by (simp only: Cons.IH)
  also have "\<dots> = fst ` set t \<union> (\<lambda>x. get_doc_id r (fst x)) ` set (x # B)"
    unfolding dom_update by (auto simp: x)
  finally show ?case .
qed

lemma vector_loop_distinct:
  "distinct (map fst t) \<Longrightarrow> distinct (map fst (vector_loop r vw V t))"
  by (induction V arbitrary: t) (auto simp: distinct_update)

lemma bm25_loop_distinct:
  "distinct (map fst t) \<Longrightarrow> distinct (map fst (bm25_loop r bw B t))"
  by (induction B arbitrary: t) (auto simp: distinct_update split: option.splits)


lemma keyed_fst: "map fst (keyed r xs) = doc_ids r xs"
  by (simp add: doc_ids_def comp_def)

lemma keyed_Some:
  "distinct (doc_ids r xs) \<Longrightarrow> (d, s) \<in> set xs \<Longrightarrow>
     map_of (keyed r xs) (get_doc_id r d) = Some (d, s)"
proof (rule map_of_is_SomeI)
  assume "distinct (doc_ids r xs)"
  then show "distinct (map fst (keyed r xs))"
    by (simp only: keyed_fst)
next
  assume "(d, s) \<in> set xs"
  then show "(get_doc_id r d, d, s) \<in> set (keyed r xs)"
    by force
qed

lemma keyed_None:
  "key \<notin> set (doc_ids r xs) \<Longrightarrow> map_of (keyed r xs) key = None"
  by (simp add: map_of_eq_None_iff keyed_fst [symmetric] del: map_map)

lemma fusion_lookup:
  assumes "distinct (doc_ids r (normalized_pairs vec))"
      and "distinct (doc_ids r (normalized_pairs lexical))"
  shows "map_of (fusion r vw bw vec lexical) key =
     (case map_of (keyed r (normalized_pairs lexical)) key of
        Some (d, s) \<Rightarrow>
          (case map_of (keyed r (normalized_pairs vec)) key of
             Some (d0, s0) \<Rightarrow> Some (d0, s0 * vw + s * bw)
           | None \<Rightarrow> Some (d, s * bw))
      | None \<Rightarrow>
          (case map_of (keyed r (normalized_pairs vec)) key of
             Some (d0, s0) \<Rightarrow> Some (d0, s0 * vw)
           | None \<Rightarrow> None))"
  using assms unfolding fusion_def doc_ids_def
  by (simp add: bm25_loop_lookup vector_loop_lookup split: option.splits)

lemma fusion_keys:
  "set (map fst (fusion r vw bw vec lexical)) =
     set (doc_ids r (normalized_pairs vec)) \<union> set (doc_ids r (normalized_pairs lexical))"
  unfolding fusion_def doc_ids_def
  by (simp add: bm25_loop_keys vector_loop_keys)

lemma fusion_distinct: "distinct (map fst (fusion r vw bw vec lexical))"
  unfolding fusion_def by (simp add: bm25_loop_distinct vector_loop_distinct)

lemma sorted_desc_sorted: "sorted_wrt (\<lambda>x y. snd y \<le> snd x) (sorted_desc xs)"
proof -
  have "sorted (map (\<lambda>x. - snd x) (sorted_desc xs))"
    unfolding sorted_desc_def by (rule sorted_sort_key)
  then show ?thesis
    by (simp add: sorted_map)
qed

lemma mset_sorted_desc: "mset (sorted_desc xs) = mset xs"
  by (simp add: sorted_desc_def)

lemma hybrid_search_fused:
  assumes "bm25 r \<noteq> None"
  shows "\<exists>lexical. bm25_search r q (k * 2) = Inr lexical \<and>
     hybrid_search r q k vwo bwo f =
       Inr (map fst (slice_to k (sorted_desc (map snd
              (fusion r (weight_or vwo (vector_weight (config r)))
                 (weight_or bwo (bm25_weight (config r)))
                 (vector_search r q (k * 2) f) lexical)))),
            map snd (slice_to k (sorted_desc (map snd
              (fusion r (weight_or vwo (vector_weight (config r)))
                 (weight_or bwo (bm25_weight (config r)))
                 (vector_search r q (k * 2) f) lexical)))))"
proof -
  obtain lexical where l: "bm25_search r q (k * 2) = Inr lexical"
    using assms by (auto simp: bm25_search_def Let_def)
  show ?thesis
    using assms by (auto simp: hybrid_search_def l and_then_def Let_def)
qed

section \<open>Sample runs of the retriever\<close>

lemmas page_defs = d1_def d2_def d3_def d4_def page_doc_def chunk_1a_def chunk_1b_def

lemma upt_3: "[0..<3] = [0, 1, 2]"
  by (simp add: eval_nat_numeral)

lemma upt_4: "[0..<4] = [0, 1, 2, 3]"
  by (simp add: eval_nat_numeral)

lemma str_nat_digit: "n < 10 \<Longrightarrow> str_nat n = [char_of (48 + n)]"
  by (subst str_nat.simps) simp

lemma page_doc_id:
  "0 \<le> n \<Longrightarrow> n < 10 \<Longrightarrow> get_doc_id r (page_doc text n) = ''n.pdf_'' @ [char_of (48 + nat n)]"
  by (simp add: get_doc_id_def page_doc_def md_get_def str_int_def str_nat_digit)

lemma sample_ids:
  "get_doc_id r d1 = ''n.pdf_1''" "get_doc_id r d2 = ''n.pdf_2''"
  "get_doc_id r d3 = ''n.pdf_3''" "get_doc_id r d4 = ''n.pdf_4''"
  "get_doc_id r chunk_1a = ''n.pdf_1''" "get_doc_id r chunk_1b = ''n.pdf_1''"
  by (simp_all add: d1_def d2_def d3_def d4_def chunk_1a_def chunk_1b_def page_doc_id
        char_of_def bit_Suc_0_iff)

lemma sample_docs_differ:
  "d1 \<noteq> d2" "d2 \<noteq> d1" "chunk_1a \<noteq> chunk_1b" "chunk_1b \<noteq> chunk_1a" "d2 \<noteq> chunk_1a"
  by (simp_all add: page_defs)

lemma r_pages_fields:
  "bm25 r_pages \<noteq> None" "vector_weight (config r_pages) = 3 / 5"
  "bm25_weight (config r_pages) = 2 / 5" "reranker r_pages = None"
  "default_k (config r_pages) = 5"
  by (simp_all add: r_pages_def)

lemma r_pages_vector_2: "vector_search r_pages ''q'' 2 None = ([d1, d2], [1, 9 / 10])"
  by (simp add: vector_search_def r_pages_def slice_to_def)

lemma r_pages_vector_4:
  "vector_search r_pages ''q'' 4 None = ([d1, d2, d3, d4], [1, 9 / 10, 7 / 10, 0])"
  by (simp add: vector_search_def r_pages_def slice_to_def)

lemma r_pages_bm25_2: "bm25_search r_pages ''q'' 2 = Inr ([d2, d3], [10, 5])"
  by (simp add: bm25_search_def r_pages_def argsort_def slice_to_def upt_4 Let_def)

lemma r_pages_bm25_4: "bm25_search r_pages ''q'' 4 = Inr ([d2, d3, d4, d1], [10, 5, 1, 0])"
  by (simp add: bm25_search_def r_pages_def argsort_def slice_to_def upt_4 Let_def)

lemma pairs_vector_2: "normalized_pairs ([d1, d2], [1, 9 / 10]) = [(d1, 1), (d2, 0)]"
  by (simp add: normalized_pairs_def)

lemma pairs_bm25_2: "normalized_pairs ([d2, d3], [10, 5]) = [(d2, 1), (d3, 0)]"
  by (simp add: normalized_pairs_def)

lemma pairs_vector_4:
  "normalized_pairs ([d1, d2, d3, d4], [1, 9 / 10, 7 / 10, 0])
     = [(d1, 1), (d2, 9 / 10), (d3, 7 / 10), (d4, 0)]"
  by (simp add: normalized_pairs_def)

lemma pairs_bm25_4:
  "normalized_pairs ([d2, d3, d4, d1], [10, 5, 1, 0])
     = [(d2, 1), (d3, 1 / 2), (d4, 1 / 10), (d1, 0)]"
  by (simp add: normalized_pairs_def)

text \<open>The fusion of the two candidate lists of four, with the configured weights 0.6 and 0.4.\<close>

lemma fusion_pages_4:
  "fusion r (3 / 5) (2 / 5) ([d1, d2, d3, d4], [1, 9 / 10, 7 / 10, 0]) ([d2, d3, d4, d1], [10, 5, 1, 0])
     = [(''n.pdf_1'', d1, 3 / 5), (''n.pdf_2'', d2, 47 / 50), (''n.pdf_3'', d3, 31 / 50),
        (''n.pdf_4'', d4, 1 / 25)]"
  unfolding fusion_def pairs_vector_4 pairs_bm25_4
  by (simp add: sample_ids)

text \<open>The same with the vector weight 1 and the configured BM25 weight 0.4.\<close>

lemma fusion_pages_4_weight_1:
  "fusion r 1 (2 / 5) ([d1, d2, d3, d4], [1, 9 / 10, 7 / 10, 0]) ([d2, d3, d4, d1], [10, 5, 1, 0])
     = [(''n.pdf_1'', d1, 1), (''n.pdf_2'', d2, 13 / 10), (''n.pdf_3'', d3, 9 / 10),
        (''n.pdf_4'', d4, 1 / 25)]"
  unfolding fusion_def pairs_vector_4 pairs_bm25_4
  by (simp add: sample_ids)

text \<open>The same with the weights 1 and 0.\<close>

lemma fusion_pages_4_vector_only:
  "fusion r 1 0 ([d1, d2, d3, d4], [1, 9 / 10, 7 / 10, 0]) ([d2, d3, d4, d1], [10, 5, 1, 0])
     = [(''n.pdf_1'', d1, 1), (''n.pdf_2'', d2, 9 / 10), (''n.pdf_3'', d3, 7 / 10),
        (''n.pdf_4'', d4, 0)]"
  unfolding fusion_def pairs_vector_4 pairs_bm25_4
  by (simp add: sample_ids)

lemma fusion_pages_2:
  "fusion r (3 / 5) (2 / 5) ([d1, d2], [1, 9 / 10]) ([d2, d3], [10, 5])
     = [(''n.pdf_1'', d1, 3 / 5), (''n.pdf_2'', d2, 2 / 5), (''n.pdf_3'', d3, 0)]"
  unfolding fusion_def pairs_vector_2 pairs_bm25_2
  by (simp add: sample_ids)

lemma hybrid_pages_1: "hybrid_search r_pages ''q'' 1 None None None = Inr ([d1], [3 / 5])"
  unfolding hybrid_search_def
  by (simp add: r_pages_fields r_pages_vector_2 r_pages_bm25_2 fusion_pages_2 and_then_def
        weight_or_def sorted_desc_def slice_to_def)

lemma hybrid_pages_2:
  "hybrid_search r_pages ''q'' 2 None None None = Inr ([d2, d3], [47 / 50, 31 / 50])"
  unfolding hybrid_search_def
  by (simp add: r_pages_fields r_pages_vector_4 r_pages_bm25_4 fusion_pages_4 and_then_def
        weight_or_def sorted_desc_def slice_to_def)

lemma retrieve_pages_hybrid:
  "retrieve r_pages ''q'' (Some 1) HYBRID True None
     = Inr \<lparr>documents = [d1], scores = [3 / 5], strategy = HYBRID, meta_query = ''q'',
             meta_k = 1, total_results = 1, filters_applied = True\<rparr>"
  unfolding retrieve_def
  by (simp add: k_or_def hybrid_pages_1 and_then_def)

lemma retrieve_pages_hybrid_rerank:
  "retrieve r_pages ''q'' (Some 1) HYBRID_RERANK True None
     = Inr \<lparr>documents = [d2, d3], scores = [1, 1], strategy = HYBRID_RERANK, meta_query = ''q'',
             meta_k = 1, total_results = 2, filters_applied = True\<rparr>"
  unfolding retrieve_def
  by (simp add: k_or_def hybrid_pages_2 rerank_def r_pages_fields and_then_def)

lemma r_pages_vector_only_fields:
  "bm25 r_pages_vector_only \<noteq> None" "vector_weight (config r_pages_vector_only) = 1"
  "bm25_weight (config r_pages_vector_only) = 0"
  by (simp_all add: r_pages_vector_only_def r_pages_def)

lemma r_pages_vector_only_searches:
  "vector_search r_pages_vector_only ''q'' 4 None = ([d1, d2, d3, d4], [1, 9 / 10, 7 / 10, 0])"
  "bm25_search r_pages_vector_only ''q'' 4 = Inr ([d2, d3, d4, d1], [10, 5, 1, 0])"
  by (simp_all add: vector_search_def bm25_search_def r_pages_vector_only_def r_pages_def
        argsort_def slice_to_def upt_4 Let_def)

text \<open>
  When the configured weights are 1 and 0 themselves, the call with the weights 1 and 0
  ranks as the vector search does.
\<close>

lemma hybrid_pages_configured_vector_only:
  "hybrid_search r_pages_vector_only ''q'' 2 (Some 1) (Some 0) None = Inr ([d1, d2], [1, 9 / 10])"
  unfolding hybrid_search_def
  by (simp add: r_pages_vector_only_fields r_pages_vector_only_searches
        fusion_pages_4_vector_only and_then_def weight_or_def sorted_desc_def slice_to_def)

lemma r_chunks_fields:
  "bm25 r_chunks \<noteq> None" "vector_weight (config r_chunks) = 3 / 5"
  "bm25_weight (config r_chunks) = 2 / 5"
  by (simp_all add: r_chunks_def)

lemma r_chunks_vector_6: "vector_search r_chunks ''q'' 6 None = ([d3], [1])"
  by (simp add: vector_search_def r_chunks_def slice_to_def)

lemma r_chunks_bm25_6:
  "bm25_search r_chunks ''q'' 6 = Inr ([chunk_1a, chunk_1b, d2], [10, 5 / 2, 0])"
  by (simp add: bm25_search_def r_chunks_def argsort_def slice_to_def upt_3 Let_def)

lemma fusion_chunks:
  "fusion r (3 / 5) (2 / 5) ([d3], [1]) ([chunk_1a, chunk_1b, d2], [10, 5 / 2, 0])
     = [(''n.pdf_3'', d3, 3 / 5), (''n.pdf_1'', chunk_1a, 1 / 2), (''n.pdf_2'', d2, 0)]"
  unfolding fusion_def normalized_pairs_def fst_conv snd_conv
  by (simp add: sample_ids)

section \<open>The lengths of the result\<close>

lemma comprehension_length: "comprehension p xs = Inr ys \<Longrightarrow> length ys \<le> length xs"
  by (drule comprehension_Inr) simp

lemma apply_all_filters_length:
  assumes "apply_all_filters D c = Inr R"
  shows "length R \<le> length D"
proof -
  obtain f2 f3 where
    f2: "filter_by_precedence (filter_by_status D (status_of c)) (min_precedence c) = Inr f2" and
    f3: "filter_by_date_range f2 (start_date c) (end_date c) = Inr f3" and
    R: "R = filter_by_source_type f3 (source_types c)"
    using assms unfolding apply_all_filters_def and_then_def
    by (auto split: sum.splits)
  have 1: "length (filter_by_status D (status_of c)) \<le> length D"
    by (simp add: filter_by_status_def)
  have 2: "length f2 \<le> length (filter_by_status D (status_of c))"
    using f2 by (auto simp: filter_by_precedence_def split: option.splits dest: comprehension_length)
  have 3: "length f3 \<le> length f2"
    using f3
    by (auto simp: filter_by_date_range_def and_then_def
          split: option.splits sum.splits if_splits dest!: comprehension_length)
  have 4: "length R \<le> length f3"
    unfolding R by (auto simp: filter_by_source_type_def split: option.splits list.splits)
  show ?thesis
    using 1 2 3 4 by linarith
qed

lemma vector_search_lengths: "length (fst (vector_search r q k f)) = length (snd (vector_search r q k f))"
  by (simp add: vector_search_def Let_def)

lemma bm25_search_lengths: "bm25_search r q k = Inr (ds, ss) \<Longrightarrow> length ds = length ss"
  by (auto simp: bm25_search_def Let_def split: option.splits)

lemma hybrid_search_lengths: "hybrid_search r q k vw bw f = Inr (ds, ss) \<Longrightarrow> length ds = length ss"
  by (auto simp: hybrid_search_def and_then_def Let_def vector_search_def split: if_splits sum.splits)

lemma rerank_lengths: "rerank r q docs top_k = (ds, ss) \<Longrightarrow> length ds = length ss"
  by (auto simp: rerank_def Let_def split: option.splits if_splits)

text \<open>Whenever \<open>retrieve\<close> returns, its documents and scores have the same length.\<close>

lemma retrieve_lengths_equal:
  assumes "retrieve r q k strat af fk = Inr res"
  shows "length (documents res) = length (scores res)"
proof -
  define k' where "k' = k_or k (default_k (config r))"
  obtain ds ss where
    s: "(case strat of
              VECTOR_ONLY \<Rightarrow> Inr (vector_search r q k' None)
            | BM25_ONLY \<Rightarrow> bm25_search r q k'
            | HYBRID \<Rightarrow> hybrid_search r q k' None None None
            | HYBRID_RERANK \<Rightarrow>
                and_then (hybrid_search r q (k' * 2) None None None)
                  (\<lambda>(docs, _). Inr (rerank r q docs (Some k')))) = Inr (ds, ss)"
    and f: "and_then
                (case (af, fk) of
                   (True, Some c) \<Rightarrow>
                     and_then (apply_all_filters ds c)
                       (\<lambda>docs'. Inr (docs', slice_to (int (length docs')) ss))
                 | _ \<Rightarrow> Inr (ds, ss))
                (\<lambda>(docs, scs).
                   Inr \<lparr>documents = docs, scores = scs, strategy = strat, meta_query = q,
                        meta_k = k', total_results = length docs,
                        filters_applied = af\<rparr>) = Inr res"
    using assms unfolding retrieve_def k'_def [symmetric] Let_def and_then_def
    by (auto split: sum.splits prod.splits)
  have eq: "length ds = length ss"
  proof (cases strat)
    case VECTOR_ONLY
    with s show ?thesis using vector_search_lengths [of r q k' None] by auto
  next
    case BM25_ONLY
    with s show ?thesis by (auto dest: bm25_search_lengths)
  next
    case HYBRID
    with s show ?thesis by (auto dest: hybrid_search_lengths)
  next
    case HYBRID_RERANK
    with s show ?thesis
      by (auto simp: and_then_def split: sum.splits prod.splits dest: rerank_lengths)
  qed
  show ?thesis
  proof (cases "af \<and> fk \<noteq> None")
    case False
    then show ?thesis
      using f eq by (auto simp: and_then_def split: bool.splits option.splits)
  next
    case True
    then obtain c where c: "af" "fk = Some c" by auto
    obtain R where R: "apply_all_filters ds c = Inr R"
      using f c by (auto simp: and_then_def split: sum.splits)
    have "length R \<le> length ss"
      using apply_all_filters_length [OF R] eq by simp
    then show ?thesis
      using f c R by (auto simp: and_then_def slice_to_def)
  qed
qed

lemma slice_to_length: "0 \<le> k \<Longrightarrow> length (slice_to k xs) \<le> nat k"
  by (simp add: slice_to_def)

text \<open>
  The bound by \<open>k\<close> on every path but the degraded rerank: for a positive \<open>k\<close>, a vector
  store that returns at most the number of results asked for, and a reranker present when
  the strategy is HYBRID\_RERANK.
\<close>

lemma retrieve_at_most_k:
  assumes "retrieve r q k strat af fk = Inr res"
    and pos: "0 < k_or k (default_k (config r))"
    and store: "\<And>q n f. length (vectorstore r q n f) \<le> nat n"
    and rr: "strat = HYBRID_RERANK \<Longrightarrow> reranker r \<noteq> None"
  shows "int (length (documents res)) \<le> k_or k (default_k (config r))"
proof -
  define k' where "k' = k_or k (default_k (config r))"
  have k': "0 < k'" using pos by (simp add: k'_def)
  obtain ds ss where
    s: "(case strat of
              VECTOR_ONLY \<Rightarrow> Inr (vector_search r q k' None)
            | BM25_ONLY \<Rightarrow> bm25_search r q k'
            | HYBRID \<Rightarrow> hybrid_search r q k' None None None
            | HYBRID_RERANK \<Rightarrow>
                and_then (hybrid_search r q (k' * 2) None None None)
                  (\<lambda>(docs, _). Inr (rerank r q docs (Some k')))) = Inr (ds, ss)"
    and f: "and_then
                (case (af, fk) of
                   (True, Some c) \<Rightarrow>
                     and_then (apply_all_filters ds c)
                       (\<lambda>docs'. Inr (docs', slice_to (int (length docs')) ss))
                 | _ \<Rightarrow> Inr (ds, ss))
                (\<lambda>(docs, scs).
                   Inr \<lparr>documents = docs, scores = scs, strategy = strat, meta_query = q,
                        meta_k = k', total_results = length docs,
                        filters_applied = af\<rparr>) = Inr res"
    using assms(1) unfolding retrieve_def k'_def [symmetric] Let_def and_then_def
    by (auto split: sum.splits prod.splits)
  have vs: "length (fst (vector_search r q k' None)) \<le> nat k'"
    using store [of q k' None] by (simp add: vector_search_def Let_def)
  have hs: "length hd \<le> nat k'" if "hybrid_search r q k' None None None = Inr (hd, hss)" for hd hss
    using that vs k'
    by (auto simp: hybrid_search_def and_then_def Let_def slice_to_def split: if_splits sum.splits)
  have bound: "length ds \<le> nat k'"
  proof (cases strat)
    case VECTOR_ONLY
    with s vs show ?thesis by auto
  next
    case BM25_ONLY
    with s k' show ?thesis
      by (auto simp: bm25_search_def Let_def slice_to_def split: option.splits)
  next
    case HYBRID
    with s hs show ?thesis by auto
  next
    case HYBRID_RERANK
    with s k' rr show ?thesis
      by (auto simp: and_then_def rerank_def Let_def slice_to_def
            split: sum.splits prod.splits option.splits if_splits)
  qed
  have "length (documents res) \<le> length ds"
  proof (cases "af \<and> fk \<noteq> None")
    case False
    then show ?thesis
      using f by (auto simp: and_then_def split: bool.splits option.splits)
  next
    case True
    then obtain c where c: "af" "fk = Some c" by auto
    obtain R where R: "apply_all_filters ds c = Inr R"
      using f c by (auto simp: and_then_def split: sum.splits)
    show ?thesis
      using f c R apply_all_filters_length [OF R] by (auto simp: and_then_def)
  qed
  then show ?thesis
    using bound k' unfolding k'_def by linarith
qed
section \<open>Fusion with the weights 1 and 0\<close>

lemma update_absent: "key \<notin> fst ` set al \<Longrightarrow> AList.update key v al = al @ [(key, v)]"
  by (induction al) auto

lemma vector_loop_append:
  "distinct (doc_ids r V) \<Longrightarrow> set (doc_ids r V) \<inter> fst ` set t = {} \<Longrightarrow>
   vector_loop r vw V t = t @ map (\<lambda>x. (get_doc_id r (fst x), fst x, snd x * vw)) V"
proof (induction V arbitrary: t)
  case Nil
  then show ?case by simp
next
  case (Cons x V)
  obtain d s where x: "x = (d, s)" by (cases x)
  have absent: "get_doc_id r d \<notin> fst ` set t"
    using Cons.prems(2) by (auto simp: x doc_ids_def)
  have upd: "AList.update (get_doc_id r d) (d, s * vw) t = t @ [(get_doc_id r d, d, s * vw)]"
    using absent by (rule update_absent)
  have d: "distinct (doc_ids r V)"
    using Cons.prems(1) by (simp add: doc_ids_def)
  have disj: "set (doc_ids r V) \<inter> fst ` set (t @ [(get_doc_id r d, d, s * vw)]) = {}"
    using Cons.prems by (auto simp: x doc_ids_def)
  show ?case
    by (simp add: x upd Cons.IH [OF d disj])
qed

lemma bm25_loop_zero:
  "\<exists>zs. bm25_loop r 0 B t = t @ zs \<and> (\<forall>z \<in> set zs. snd (snd z) = 0)"
proof (induction B arbitrary: t)
  case Nil
  then show ?case by simp
next
  case (Cons x B)
  obtain d s where x: "x = (d, s)" by (cases x)
  show ?case
  proof (cases "map_of t (get_doc_id r d)")
    case None
    then have "get_doc_id r d \<notin> fst ` set t"
      by (simp add: map_of_eq_None_iff)
    then have upd: "AList.update (get_doc_id r d) (d, 0) t = t @ [(get_doc_id r d, d, 0)]"
      by (rule update_absent)
    obtain zs where zs: "bm25_loop r 0 B (t @ [(get_doc_id r d, d, 0)]) = (t @ [(get_doc_id r d, d, 0)]) @ zs"
      "\<forall>z \<in> set zs. snd (snd z) = 0"
      using Cons.IH by blast
    have "bm25_loop r 0 (x # B) t = t @ ((get_doc_id r d, d, 0) # zs)"
      by (simp add: x None upd zs(1))
    moreover have "\<forall>z \<in> set ((get_doc_id r d, d, 0 :: real) # zs). snd (snd z) = 0"
      using zs(2) by simp
    ultimately show ?thesis by blast
  next
    case (Some v)
    obtain d0 s0 where v: "v = (d0, s0)" by (cases v)
    have upd: "AList.update (get_doc_id r d) (d0, s0) t = t"
      using Some by (simp add: v update_triv)
    have "bm25_loop r 0 (x # B) t = bm25_loop r 0 B t"
      by (simp add: x Some v upd)
    then show ?thesis
      using Cons.IH by simp
  qed
qed

lemma normalize_scores_sorted:
  assumes "sorted_wrt (\<lambda>x y. y \<le> x) xs"
  shows "sorted_wrt (\<lambda>x y. y \<le> x) (normalize_scores xs)"
  unfolding sorted_wrt_iff_nth_less length_normalize_scores
proof (intro allI impI)
  fix i j assume ij: "i < j" "j < length xs"
  then have "xs ! j \<le> xs ! i"
    using assms by (simp add: sorted_wrt_iff_nth_less)
  then show "normalize_scores xs ! j \<le> normalize_scores xs ! i"
    using ij by (simp add: normalize_scores_order)
qed

lemma sorted_desc_id:
  assumes "sorted_wrt (\<lambda>x y. snd y \<le> snd x) xs"
  shows "sorted_desc xs = xs"
proof -
  have "sorted (map (\<lambda>x. - snd x) xs)"
    using assms by (simp add: sorted_map)
  then show ?thesis
    unfolding sorted_desc_def by (rule sort_key_id_if_sorted)
qed

lemma fusion_vector_only:
  assumes "distinct (doc_ids r (normalized_pairs vec))"
  shows "\<exists>zs. map snd (fusion r 1 0 vec lexical) = normalized_pairs vec @ zs \<and>
              (\<forall>z \<in> set zs. snd z = 0)"
proof -
  have v: "vector_loop r 1 (normalized_pairs vec) []
           = map (\<lambda>x. (get_doc_id r (fst x), x)) (normalized_pairs vec)"
    using vector_loop_append [OF assms, of "[]" 1] by simp
  obtain zs where zs:
    "fusion r 1 0 vec lexical = map (\<lambda>x. (get_doc_id r (fst x), x)) (normalized_pairs vec) @ zs"
    "\<forall>z \<in> set zs. snd (snd z) = 0"
    unfolding fusion_def v using bm25_loop_zero by blast
  have "map snd (fusion r 1 0 vec lexical) = normalized_pairs vec @ map snd zs"
    by (simp add: zs(1) comp_def)
  moreover have "\<forall>z \<in> set (map snd zs). snd z = 0"
    using zs(2) by simp
  ultimately show ?thesis by blast
qed

section \<open>The claims about the retriever\<close>

text \<open>
  C1.  The claim: after the governance filters, every remaining document keeps the score it
  had before filtering.  \<open>retrieve\<close> filters the documents and then cuts the score list
  to the new length (\<^verbatim>\<open>scores = scores[:len(documents)]\<close>).  On a vector store that
  returns a revoked document with score 0.9 before an active one with score 0.4, the status
  filter keeps the active document and the result pairs it with 0.9, the score of the
  removed document.
\<close>

theorem filter_truncates_scores:
  "vector_search r_status ''q'' 2 None = ([doc_a, doc_b], [9 / 10, 2 / 5]) \<and>
   apply_all_filters [doc_a, doc_b] vigente_only = Inr [doc_b] \<and>
   retrieve r_status ''q'' (Some 2) VECTOR_ONLY True (Some vigente_only)
     = Inr \<lparr>documents = [doc_b], scores = [9 / 10], strategy = VECTOR_ONLY, meta_query = ''q'',
             meta_k = 2, total_results = 1, filters_applied = True\<rparr>"
  by (simp add: retrieve_def k_or_def vector_search_def slice_to_def
        r_status_def vigente_only_def filter_defs sample_defs)

text \<open>
  C2.  The claim: the result never holds more than \<open>k\<close> documents.  Without a reranker,
  \<open>rerank\<close> returns all the candidates it is given and ignores \<open>top_k\<close>, so the strategy
  HYBRID\_RERANK returns the \<open>2k\<close> candidates of the fusion: two documents for \<open>k = 1\<close>.
  (The two lists always have equal lengths, \<open>retrieve_lengths_equal\<close>, and the bound holds
  on every other path, \<open>retrieve_at_most_k\<close>.)
\<close>

theorem degraded_rerank_exceeds_k:
  "reranker r_pages = None \<and>
   (\<exists>res. retrieve r_pages ''q'' (Some 1) HYBRID_RERANK True None = Inr res \<and>
      documents res = [d2, d3] \<and> length (documents res) = length (scores res) \<and>
      \<not> int (length (documents res)) \<le> 1)"
  by (simp add: retrieve_pages_hybrid_rerank r_pages_fields)

text \<open>
  C3, as stated: without a reranker, HYBRID\_RERANK returns the top \<open>k\<close> documents of
  HYBRID with every score 1.0.  On the four-page corpus with \<open>k = 1\<close>, HYBRID returns page 1
  (fused over two candidates per method), while HYBRID\_RERANK returns the pages 2 and 3
  (fused over four candidates per method): already the first documents differ.
\<close>

theorem degraded_rerank_counterexample:
  "reranker r_pages = None \<and>
   retrieve r_pages ''q'' (Some 1) HYBRID True None
     = Inr \<lparr>documents = [d1], scores = [3 / 5], strategy = HYBRID, meta_query = ''q'',
             meta_k = 1, total_results = 1, filters_applied = True\<rparr> \<and>
   retrieve r_pages ''q'' (Some 1) HYBRID_RERANK True None
     = Inr \<lparr>documents = [d2, d3], scores = [1, 1], strategy = HYBRID_RERANK, meta_query = ''q'',
             meta_k = 1, total_results = 2, filters_applied = True\<rparr> \<and>
   take 1 [d2, d3] \<noteq> [d1]"
  by (simp add: retrieve_pages_hybrid retrieve_pages_hybrid_rerank r_pages_fields
        sample_docs_differ)

lemma hybrid_search_returns: "\<exists>docs scs. hybrid_search r q k vw bw f = Inr (docs, scs)"
  by (cases "bm25 r")
     (auto simp: hybrid_search_def bm25_search_def vector_search_def and_then_def Let_def)

text \<open>
  C3, amended.  Without a reranker, \<open>retrieve\<close> with the strategy HYBRID\_RERANK takes its
  candidates from the list that \<open>hybrid_search\<close> gives for the same query and \<open>2k\<close> (the
  fusion over the doubled candidate pool, not the list of the strategy HYBRID for \<open>k\<close>):
  an initial segment of that list holding at least its first \<open>k\<close> documents.  The result is
  these candidates, passed through the governance filters when criteria are supplied, with
  every score 1.0.
\<close>

theorem degraded_rerank_result:
  assumes "reranker r = None"
  shows "\<exists>docs scs cand.
     hybrid_search r q (k_or k (default_k (config r)) * 2) None None None = Inr (docs, scs) \<and>
     prefix (take (nat (k_or k (default_k (config r)))) docs) cand \<and> prefix cand docs \<and>
     retrieve r q k HYBRID_RERANK af fk =
       and_then (case (af, fk) of (True, Some c) \<Rightarrow> apply_all_filters cand c | _ \<Rightarrow> Inr cand)
         (\<lambda>kept. Inr \<lparr>documents = kept, scores = replicate (length kept) 1,
                        strategy = HYBRID_RERANK, meta_query = q,
                        meta_k = k_or k (default_k (config r)),
                        total_results = length kept, filters_applied = af\<rparr>)"
proof -
  obtain docs scs where
    h: "hybrid_search r q (k_or k (default_k (config r)) * 2) None None None = Inr (docs, scs)"
    using hybrid_search_returns by blast
  have cut: "slice_to (int (length kept)) (replicate (length docs) (1 :: real))
             = replicate (length kept) 1"
    if "apply_all_filters docs c = Inr kept" for c kept
    using apply_all_filters_length [OF that] by (simp add: slice_to_def min_def)
  have "retrieve r q k HYBRID_RERANK af fk =
       and_then (case (af, fk) of (True, Some c) \<Rightarrow> apply_all_filters docs c | _ \<Rightarrow> Inr docs)
         (\<lambda>kept. Inr \<lparr>documents = kept, scores = replicate (length kept) 1,
                        strategy = HYBRID_RERANK, meta_query = q,
                        meta_k = k_or k (default_k (config r)),
                        total_results = length kept, filters_applied = af\<rparr>)"
    unfolding retrieve_def
    by (cases af; cases fk)
       (auto simp: h assms rerank_def and_then_def cut split: sum.splits)
  moreover have "prefix (take (nat (k_or k (default_k (config r)))) docs) docs"
    by (rule take_is_prefix)
  ultimately show ?thesis
    using h by blast
qed

theorem degraded_rerank_result_witness:
  "reranker r_pages = None \<and>
   hybrid_search r_pages ''q'' (k_or (Some 1) (default_k (config r_pages)) * 2) None None None
     = Inr ([d2, d3], [47 / 50, 31 / 50]) \<and>
   take (nat (k_or (Some 1) (default_k (config r_pages)))) [d2, d3] = [d2] \<and>
   (\<exists>cand. prefix [d2] cand \<and> prefix cand [d2, d3] \<and>
      retrieve r_pages ''q'' (Some 1) HYBRID_RERANK True None
        = Inr \<lparr>documents = cand, scores = replicate (length cand) 1, strategy = HYBRID_RERANK,
                meta_query = ''q'', meta_k = 1, total_results = length cand,
                filters_applied = True\<rparr>)"
  using degraded_rerank_result [of r_pages "''q''" "Some 1" True None]
  by (simp add: r_pages_fields k_or_def hybrid_pages_2 and_then_def)

text \<open>
  C4.  The claim: \<open>hybrid_search\<close> called with the vector weight 1 and the BM25 weight 0
  returns the documents of \<open>vector_search\<close> cut to \<open>k\<close>, in the same order.
  \<^verbatim>\<open>bm25_weight = bm25_weight or self.config.retrieval.bm25_weight\<close> takes the configured
  weight when the caller passes 0, since 0 is false in Python, although the comment above
  it says the configured weights are for weights not supplied.  On the four-page corpus
  configured with the weights 0.6 and 0.4, the call with the weights 1 and 0 therefore
  fuses with the BM25 weight 0.4: for \<open>k = 2\<close> it returns page 2 before page 1 with the
  scores 1.3 and 1, while the vector search returns page 1 before page 2.
\<close>

theorem hybrid_search_ignores_zero_weight:
  "hybrid_search r_pages ''q'' 2 (Some 1) (Some 0) None = Inr ([d2, d1], [13 / 10, 1]) \<and>
   vector_search r_pages ''q'' 2 None = ([d1, d2], [1, 9 / 10]) \<and>
   [d2, d1] \<noteq> [d1, d2] \<and>
   weight_or (Some 0) (bm25_weight (config r_pages)) = 2 / 5"
proof -
  have "hybrid_search r_pages ''q'' 2 (Some 1) (Some 0) None = Inr ([d2, d1], [13 / 10, 1])"
    unfolding hybrid_search_def
    by (simp add: r_pages_fields r_pages_vector_4 r_pages_bm25_4 fusion_pages_4_weight_1
          and_then_def weight_or_def sorted_desc_def slice_to_def)
  then show ?thesis
    by (simp add: r_pages_vector_2 sample_docs_differ weight_or_def r_pages_fields)
qed

text \<open>
  With the weights 1 and 0 in effect the ranking is the one of the vector search: if the
  lexical index is built and the \<open>2k\<close> vector results have pairwise distinct ids and arrive
  in non-increasing order of score, then for \<open>k \<ge> 0\<close> the documents of \<open>hybrid_search\<close>
  start with the first \<open>k\<close> of those vector results, in the same order, and are exactly
  these when there are at least \<open>k\<close> of them.  On the four-page corpus configured with 1 and
  0 the call above returns the pages 1 and 2 (\<open>hybrid_pages_configured_vector_only\<close>).
\<close>

lemma hybrid_search_vector_weight_only:
  assumes "bm25 r \<noteq> None"
    and "weight_or vw (vector_weight (config r)) = 1"
    and "weight_or bw (bm25_weight (config r)) = 0"
    and "vector_search r q (k * 2) f = (vdocs, vscores)"
    and "distinct (map (get_doc_id r) vdocs)"
    and "sorted_wrt (\<lambda>x y. y \<le> x) vscores"
    and "0 \<le> k"
  shows "\<exists>docs scs. hybrid_search r q k vw bw f = Inr (docs, scs) \<and>
           prefix (take (nat k) vdocs) docs \<and>
           (nat k \<le> length vdocs \<longrightarrow> docs = take (nat k) vdocs)"
proof -
  have len: "length vdocs = length vscores"
    using assms(4) by (auto simp: vector_search_def Let_def)
  define V where "V = normalized_pairs (vdocs, vscores)"
  have fstV: "map fst V = vdocs" and sndV: "map snd V = normalize_scores vscores"
    unfolding V_def normalized_pairs_def by (simp_all add: len length_normalize_scores)
  have "doc_ids r V = map (get_doc_id r) (map fst V)"
    by (simp add: doc_ids_def comp_def)
  then have dist: "distinct (doc_ids r V)"
    using assms(5) by (simp only: fstV)
  obtain found where found: "bm25_search r q (k * 2) = Inr found"
    using assms(1) by (auto simp: bm25_search_def Let_def)
  obtain zs where zs:
    "map snd (fusion r 1 0 (vdocs, vscores) found) = V @ zs" "\<forall>z \<in> set zs. snd z = 0"
    using fusion_vector_only [of r "(vdocs, vscores)" found] dist unfolding V_def by blast
  have sV: "sorted_wrt (\<lambda>x y. y \<le> x) (map snd V)"
    unfolding sndV using assms(6) by (rule normalize_scores_sorted)
  have nonneg: "\<forall>x \<in> set V. 0 \<le> snd x"
  proof
    fix x assume "x \<in> set V"
    then have "snd x \<in> set (normalize_scores vscores)"
      unfolding sndV [symmetric] by simp
    then show "0 \<le> snd x"
      using normalize_scores_range by blast
  qed
  have szs: "sorted_wrt (\<lambda>x y. snd y \<le> snd x) zs"
    using zs(2) by (simp add: sorted_wrt_iff_nth_less)
  have sorted_all: "sorted_wrt (\<lambda>x y. snd y \<le> snd x) (V @ zs)"
    using sV szs zs(2) nonneg by (auto simp: sorted_wrt_append sorted_wrt_map)
  have res: "hybrid_search r q k vw bw f =
        Inr (map fst (take (nat k) (V @ zs)), map snd (take (nat k) (V @ zs)))"
    using assms(1,7)
    by (auto simp: hybrid_search_def found and_then_def assms(2,3,4) zs(1)
          sorted_desc_id [OF sorted_all] slice_to_def Let_def)
  have "length V = length vdocs"
    using fstV by (metis length_map)
  then have docs: "map fst (take (nat k) (V @ zs)) =
      take (nat k) vdocs @ take (nat k - length vdocs) (map fst zs)"
    by (simp add: take_map [symmetric] fstV)
  show ?thesis
    using res docs by (auto simp: prefix_def)
qed

lemma hybrid_search_vector_weight_only_example:
  "bm25 r_pages_vector_only \<noteq> None \<and>
   weight_or (Some 1) (vector_weight (config r_pages_vector_only)) = 1 \<and>
   weight_or (Some 0) (bm25_weight (config r_pages_vector_only)) = 0 \<and>
   vector_search r_pages_vector_only ''q'' (2 * 2) None
     = ([d1, d2, d3, d4], [1, 9 / 10, 7 / 10, 0]) \<and>
   distinct (map (get_doc_id r_pages_vector_only) [d1, d2, d3, d4]) \<and>
   sorted_wrt (\<lambda>x y. y \<le> x) [1, 9 / 10, 7 / 10, 0 :: real] \<and> (0 :: int) \<le> 2 \<and>
   nat 2 \<le> length [d1, d2, d3, d4] \<and>
   (\<exists>scs. hybrid_search r_pages_vector_only ''q'' 2 (Some 1) (Some 0) None
            = Inr (take (nat 2) [d1, d2, d3, d4], scs))"
  using hybrid_search_vector_weight_only [of r_pages_vector_only "Some 1" "Some 0" "''q''" 2 None
          "[d1, d2, d3, d4]" "[1, 9 / 10, 7 / 10, 0]"]
  by (simp add: r_pages_vector_only_fields r_pages_vector_only_searches weight_or_def sample_ids)

text \<open>
  C5.  The claim: a document found by one method only has the fused score of that method's
  score times that method's weight.  \<open>get_doc_id\<close> gives the chunks of one page the same
  id (source and page), and the second loop adds every BM25 result to the entry of its id.
  Here the BM25 list holds both chunks of page 1 with the normalised scores 1 and 0.25, the
  BM25 weight is 0.4 and no vector result has their id: the fused table has one entry for
  the two chunks, with the score 0.5, where the claim gives 0.4 for the first chunk and 0.1
  for the second.
\<close>

theorem fusion_accumulates_shared_id:
  "vector_search r_chunks ''q'' 6 None = ([d3], [1]) \<and>
   bm25_search r_chunks ''q'' 6 = Inr ([chunk_1a, chunk_1b, d2], [10, 5 / 2, 0]) \<and>
   normalize_scores [10, 5 / 2, 0] = [1, 1 / 4, 0] \<and>
   get_doc_id r_chunks chunk_1a = get_doc_id r_chunks chunk_1b \<and>
   get_doc_id r_chunks chunk_1a \<noteq> get_doc_id r_chunks d3 \<and>
   bm25_weight (config r_chunks) = 2 / 5 \<and>
   hybrid_search r_chunks ''q'' 3 None None None = Inr ([d3, chunk_1a, d2], [3 / 5, 1 / 2, 0]) \<and>
   (1 / 2 :: real) \<noteq> 1 * (2 / 5) \<and> (1 / 2 :: real) \<noteq> 1 / 4 * (2 / 5)"
proof -
  have "hybrid_search r_chunks ''q'' 3 None None None = Inr ([d3, chunk_1a, d2], [3 / 5, 1 / 2, 0])"
    unfolding hybrid_search_def
    by (simp add: r_chunks_fields r_chunks_vector_6 r_chunks_bm25_6 fusion_chunks and_then_def
          weight_or_def sorted_desc_def slice_to_def)
  then show ?thesis
    by (simp add: r_chunks_vector_6 r_chunks_bm25_6 sample_ids r_chunks_fields)
qed

text \<open>
  When no two entries of the vector list share an id and no two entries of the BM25 list
  share an id, the fused scores are the ones the claim states: a document in both
  normalised lists has \<open>vector_score * vector_weight + bm25_score * bm25_weight\<close>, a
  document in one list only has that score times that method's weight.  In every case the
  fused table has one entry for each id of either list, and (with the lexical index built)
  \<open>hybrid_search\<close> returns the entries of the table sorted by descending fused score and
  cut by \<^verbatim>\<open>[:k]\<close>, which for \<open>k \<ge> 0\<close> keeps the first \<open>k\<close>.
\<close>

lemma fusion_scores:
  "(distinct (doc_ids r (normalized_pairs vec)) \<and>
    distinct (doc_ids r (normalized_pairs lexical)) \<longrightarrow>
      (\<forall>(d, s) \<in> set (normalized_pairs vec). \<forall>(d', s') \<in> set (normalized_pairs lexical).
         get_doc_id r d = get_doc_id r d' \<longrightarrow>
           map_of (fusion r vw bw vec lexical) (get_doc_id r d) = Some (d, s * vw + s' * bw)) \<and>
      (\<forall>(d, s) \<in> set (normalized_pairs vec).
         get_doc_id r d \<notin> set (doc_ids r (normalized_pairs lexical)) \<longrightarrow>
           map_of (fusion r vw bw vec lexical) (get_doc_id r d) = Some (d, s * vw)) \<and>
      (\<forall>(d', s') \<in> set (normalized_pairs lexical).
         get_doc_id r d' \<notin> set (doc_ids r (normalized_pairs vec)) \<longrightarrow>
           map_of (fusion r vw bw vec lexical) (get_doc_id r d') = Some (d', s' * bw))) \<and>
   distinct (map fst (fusion r vw bw vec lexical)) \<and>
   set (map fst (fusion r vw bw vec lexical)) =
     set (doc_ids r (normalized_pairs vec)) \<union> set (doc_ids r (normalized_pairs lexical)) \<and>
   (bm25 r \<noteq> None \<longrightarrow>
      (\<exists>found fused.
         bm25_search r q (k * 2) = Inr found \<and>
         mset fused = mset (map snd
           (fusion r (weight_or vwo (vector_weight (config r)))
              (weight_or bwo (bm25_weight (config r))) (vector_search r q (k * 2) f) found)) \<and>
         sorted_wrt (\<lambda>x y. snd y \<le> snd x) fused \<and>
         hybrid_search r q k vwo bwo f =
           Inr (map fst (slice_to k fused), map snd (slice_to k fused)) \<and>
         (0 \<le> k \<longrightarrow> slice_to k fused = take (nat k) fused)))"
proof -
  have part1: "map_of (fusion r vw bw vec lexical) (get_doc_id r d) = Some (d, s * vw + s' * bw)"
    if "distinct (doc_ids r (normalized_pairs vec))" "distinct (doc_ids r (normalized_pairs lexical))"
       "(d, s) \<in> set (normalized_pairs vec)" "(d', s') \<in> set (normalized_pairs lexical)"
       "get_doc_id r d = get_doc_id r d'" for d s d' s'
    using that keyed_Some [of r "normalized_pairs vec" d s]
      keyed_Some [of r "normalized_pairs lexical" d' s']
    by (simp add: fusion_lookup)
  have part2: "map_of (fusion r vw bw vec lexical) (get_doc_id r d) = Some (d, s * vw)"
    if "distinct (doc_ids r (normalized_pairs vec))" "distinct (doc_ids r (normalized_pairs lexical))"
       "(d, s) \<in> set (normalized_pairs vec)"
       "get_doc_id r d \<notin> set (doc_ids r (normalized_pairs lexical))" for d s
    using that keyed_Some [of r "normalized_pairs vec" d s]
      keyed_None [of "get_doc_id r d" r "normalized_pairs lexical"]
    by (simp add: fusion_lookup)
  have part3: "map_of (fusion r vw bw vec lexical) (get_doc_id r d') = Some (d', s' * bw)"
    if "distinct (doc_ids r (normalized_pairs vec))" "distinct (doc_ids r (normalized_pairs lexical))"
       "(d', s') \<in> set (normalized_pairs lexical)"
       "get_doc_id r d' \<notin> set (doc_ids r (normalized_pairs vec))" for d' s'
    using that keyed_Some [of r "normalized_pairs lexical" d' s']
      keyed_None [of "get_doc_id r d'" r "normalized_pairs vec"]
    by (simp add: fusion_lookup)
  have part4: "\<exists>found fused.
         bm25_search r q (k * 2) = Inr found \<and>
         mset fused = mset (map snd
           (fusion r (weight_or vwo (vector_weight (config r)))
              (weight_or bwo (bm25_weight (config r))) (vector_search r q (k * 2) f) found)) \<and>
         sorted_wrt (\<lambda>x y. snd y \<le> snd x) fused \<and>
         hybrid_search r q k vwo bwo f =
           Inr (map fst (slice_to k fused), map snd (slice_to k fused)) \<and>
         (0 \<le> k \<longrightarrow> slice_to k fused = take (nat k) fused)"
    if "bm25 r \<noteq> None"
  proof -
    from hybrid_search_fused [OF that, of q k vwo bwo f]
    obtain found where
      l: "bm25_search r q (k * 2) = Inr found" and
      h: "hybrid_search r q k vwo bwo f =
       Inr (map fst (slice_to k (sorted_desc (map snd
              (fusion r (weight_or vwo (vector_weight (config r)))
                 (weight_or bwo (bm25_weight (config r)))
                 (vector_search r q (k * 2) f) found)))),
            map snd (slice_to k (sorted_desc (map snd
              (fusion r (weight_or vwo (vector_weight (config r)))
                 (weight_or bwo (bm25_weight (config r)))
                 (vector_search r q (k * 2) f) found)))))"
      by blast
    show ?thesis
      using l h sorted_desc_sorted mset_sorted_desc
      by (intro exI [of _ found] exI [of _ "sorted_desc (map snd
              (fusion r (weight_or vwo (vector_weight (config r)))
                 (weight_or bwo (bm25_weight (config r)))
                 (vector_search r q (k * 2) f) found))"]) (simp add: slice_to_def)
  qed
  show ?thesis
  proof (intro conjI impI)
    assume dd: "distinct (doc_ids r (normalized_pairs vec)) \<and>
      distinct (doc_ids r (normalized_pairs lexical))"
    show "\<forall>(d, s) \<in> set (normalized_pairs vec). \<forall>(d', s') \<in> set (normalized_pairs lexical).
         get_doc_id r d = get_doc_id r d' \<longrightarrow>
           map_of (fusion r vw bw vec lexical) (get_doc_id r d) = Some (d, s * vw + s' * bw)"
      using dd part1 by blast
    show "\<forall>(d, s) \<in> set (normalized_pairs vec).
         get_doc_id r d \<notin> set (doc_ids r (normalized_pairs lexical)) \<longrightarrow>
           map_of (fusion r vw bw vec lexical) (get_doc_id r d) = Some (d, s * vw)"
      using dd part2 by blast
    show "\<forall>(d', s') \<in> set (normalized_pairs lexical).
         get_doc_id r d' \<notin> set (doc_ids r (normalized_pairs vec)) \<longrightarrow>
           map_of (fusion r vw bw vec lexical) (get_doc_id r d') = Some (d', s' * bw)"
      using dd part3 by blast
  next
    show "distinct (map fst (fusion r vw bw vec lexical))"
      by (rule fusion_distinct)
  next
    show "set (map fst (fusion r vw bw vec lexical)) =
      set (doc_ids r (normalized_pairs vec)) \<union> set (doc_ids r (normalized_pairs lexical))"
      by (rule fusion_keys)
  next
    assume "bm25 r \<noteq> None"
    then show "\<exists>found fused.
         bm25_search r q (k * 2) = Inr found \<and>
         mset fused = mset (map snd
           (fusion r (weight_or vwo (vector_weight (config r)))
              (weight_or bwo (bm25_weight (config r))) (vector_search r q (k * 2) f) found)) \<and>
         sorted_wrt (\<lambda>x y. snd y \<le> snd x) fused \<and>
         hybrid_search r q k vwo bwo f =
           Inr (map fst (slice_to k fused), map snd (slice_to k fused)) \<and>
         (0 \<le> k \<longrightarrow> slice_to k fused = take (nat k) fused)"
      by (rule part4)
  qed
qed

lemma fusion_scores_example:
  "distinct (doc_ids r_pages (normalized_pairs ([d1, d2], [1, 9 / 10]))) \<and>
   distinct (doc_ids r_pages (normalized_pairs ([d2, d3], [10, 5]))) \<and>
   (d2, 0) \<in> set (normalized_pairs ([d1, d2], [1, 9 / 10])) \<and>
   (d2, 1) \<in> set (normalized_pairs ([d2, d3], [10, 5])) \<and>
   map_of (fusion r_pages (3 / 5) (2 / 5) ([d1, d2], [1, 9 / 10]) ([d2, d3], [10, 5]))
     (get_doc_id r_pages d2) = Some (d2, 0 * (3 / 5) + 1 * (2 / 5)) \<and>
   (d1, 1) \<in> set (normalized_pairs ([d1, d2], [1, 9 / 10])) \<and>
   get_doc_id r_pages d1 \<notin> set (doc_ids r_pages (normalized_pairs ([d2, d3], [10, 5]))) \<and>
   map_of (fusion r_pages (3 / 5) (2 / 5) ([d1, d2], [1, 9 / 10]) ([d2, d3], [10, 5]))
     (get_doc_id r_pages d1) = Some (d1, 1 * (3 / 5)) \<and>
   (d3, 0) \<in> set (normalized_pairs ([d2, d3], [10, 5])) \<and>
   get_doc_id r_pages d3 \<notin> set (doc_ids r_pages (normalized_pairs ([d1, d2], [1, 9 / 10]))) \<and>
   map_of (fusion r_pages (3 / 5) (2 / 5) ([d1, d2], [1, 9 / 10]) ([d2, d3], [10, 5]))
     (get_doc_id r_pages d3) = Some (d3, 0 * (2 / 5)) \<and>
   bm25 r_pages \<noteq> None \<and> (0 :: int) \<le> 1 \<and>
   hybrid_search r_pages ''q'' 1 None None None = Inr ([d1], [3 / 5])"
  using fusion_scores [of r_pages "([d1, d2], [1, 9 / 10])" "([d2, d3], [10, 5])" "3 / 5" "2 / 5"
          "''q''" 1 None None None]
  by (simp add: pairs_vector_2 pairs_bm25_2 doc_ids_def sample_ids fusion_pages_2 r_pages_fields
        hybrid_pages_1)


lemma r_dup_fields:
  "bm25 r_dup \<noteq> None" "vector_weight (config r_dup) = 1" "bm25_weight (config r_dup) = 0"
  by (simp_all add: r_dup_def)

lemma r_dup_searches:
  "vector_search r_dup ''q'' 2 None = ([chunk_1a, chunk_1b], [1, 9 / 10])"
  "vector_search r_dup ''q'' 4 None = ([chunk_1a, chunk_1b, d2, d3], [1, 9 / 10, 1 / 2, 0])"
  "bm25_search r_dup ''q'' 4 = Inr ([chunk_1a, chunk_1b, d2, d3], [3, 2, 1, 0])"
  by (simp_all add: vector_search_def bm25_search_def r_dup_def argsort_def slice_to_def upt_4
        Let_def)

lemma fusion_dup:
  "fusion r 1 0 ([chunk_1a, chunk_1b, d2, d3], [1, 9 / 10, 1 / 2, 0])
                ([chunk_1a, chunk_1b, d2, d3], [3, 2, 1, 0])
     = [(''n.pdf_1'', chunk_1b, 9 / 10), (''n.pdf_2'', d2, 1 / 2), (''n.pdf_3'', d3, 0)]"
  unfolding fusion_def normalized_pairs_def fst_conv snd_conv
  by (simp add: sample_ids)

text \<open>
  A repeated id among the vector results: the first loop stores the second chunk of page 1
  over the first, so with the weights 1 and 0 configured and \<open>k = 2\<close> the vector search
  returns the two chunks of page 1 while \<open>hybrid_search\<close> returns the second chunk and
  page 2.
\<close>

lemma hybrid_search_overwrites_shared_id:
  "weight_or (Some 1) (vector_weight (config r_dup)) = 1 \<and>
   weight_or (Some 0) (bm25_weight (config r_dup)) = 0 \<and>
   vector_search r_dup ''q'' 2 None = ([chunk_1a, chunk_1b], [1, 9 / 10]) \<and>
   hybrid_search r_dup ''q'' 2 (Some 1) (Some 0) None = Inr ([chunk_1b, d2], [9 / 10, 1 / 2]) \<and>
   [chunk_1b, d2] \<noteq> [chunk_1a, chunk_1b]"
proof -
  have "hybrid_search r_dup ''q'' 2 (Some 1) (Some 0) None = Inr ([chunk_1b, d2], [9 / 10, 1 / 2])"
    unfolding hybrid_search_def
    by (simp add: r_dup_fields r_dup_searches fusion_dup and_then_def weight_or_def
          sorted_desc_def slice_to_def)
  then show ?thesis
    by (simp add: r_dup_searches r_dup_fields weight_or_def sample_docs_differ)
qed

end
